theory Spec2Isabelle
  imports Complex_Main
begin

section \<open>Python values and exceptions\<close>

text \<open>
  The crawlers work on the JSON dictionaries delivered by the web API. A JSON value is
  modelled by \<open>pyval\<close>; a dictionary is an association list read with \<open>map_of\<close>
  (the first binding of a key is the one the dictionary holds). Floats are idealised as
  reals: no property below depends on their rounding.
\<close>

datatype pyval =
    PNone
  | PBool bool
  | PInt int
  | PFloat real
  | PStr string
  | PList "pyval list"
  | PDict "(string \<times> pyval) list"

text \<open>
  The exceptions that matter. \<open>NetworkError\<close> stands for the errors of the HTTP
  client, \<open>TimeoutError\<close> for its timeouts. \<open>KeyboardInterrupt\<close>,
  \<open>CancelledError\<close> (\<^verbatim>\<open>asyncio.CancelledError\<close>) and \<open>SystemExit\<close> derive from
  \<open>BaseException\<close> only; the others are subclasses of Python's \<open>Exception\<close>,
  which is what \<^verbatim>\<open>except Exception\<close> catches.
\<close>

datatype exn =
    AttributeError | TypeError | ValueError | NetworkError | TimeoutError
  | KeyboardInterrupt | CancelledError | SystemExit

fun is_Exception :: "exn \<Rightarrow> bool" where
  "is_Exception KeyboardInterrupt = False"
| "is_Exception CancelledError = False"
| "is_Exception SystemExit = False"
| "is_Exception _ = True"

text \<open>Sequencing of statements that may raise: the first exception aborts the rest.\<close>

definition andthen :: "exn + 'a \<Rightarrow> ('a \<Rightarrow> exn + 'b) \<Rightarrow> exn + 'b" where
  "andthen m f = (case m of Inl e \<Rightarrow> Inl e | Inr v \<Rightarrow> f v)"

text \<open>Two predicates on outcomes: what a result satisfies, and what may be raised.\<close>

definition returns :: "('a \<Rightarrow> bool) \<Rightarrow> exn + 'a \<Rightarrow> bool" where
  "returns P m = (case m of Inl e \<Rightarrow> True | Inr v \<Rightarrow> P v)"

definition catchable :: "exn + 'a \<Rightarrow> bool" where
  "catchable m = (case m of Inl e \<Rightarrow> is_Exception e | Inr v \<Rightarrow> True)"

text \<open>\<^verbatim>\<open>x.get(k, d)\<close>: only a dictionary has the method.\<close>

fun py_get :: "pyval \<Rightarrow> string \<Rightarrow> pyval \<Rightarrow> exn + pyval" where
  "py_get (PDict kvs) k d = Inr (case map_of kvs k of None \<Rightarrow> d | Some v \<Rightarrow> v)"
| "py_get _ k d = Inl AttributeError"

text \<open>Truth value of an object, as \<^verbatim>\<open>if x\<close>, \<^verbatim>\<open>not x\<close> and \<^verbatim>\<open>x or y\<close> test it.\<close>

fun truthy :: "pyval \<Rightarrow> bool" where
  "truthy PNone = False"
| "truthy (PBool b) = b"
| "truthy (PInt i) = (i \<noteq> 0)"
| "truthy (PFloat r) = (r \<noteq> 0)"
| "truthy (PStr s) = (s \<noteq> [])"
| "truthy (PList xs) = (xs \<noteq> [])"
| "truthy (PDict kvs) = (kvs \<noteq> [])"

text \<open>\<^verbatim>\<open>x > n\<close> for an integer literal \<open>n\<close>: numbers compare, anything else raises.\<close>

fun py_gt :: "pyval \<Rightarrow> int \<Rightarrow> exn + bool" where
  "py_gt (PBool b) n = Inr ((if b then 1 else 0) > n)"
| "py_gt (PInt i) n = Inr (i > n)"
| "py_gt (PFloat r) n = Inr (r > of_int n)"
| "py_gt _ n = Inl TypeError"

text \<open>\<^verbatim>\<open>x // n\<close> for a positive integer literal \<open>n\<close> (floor division).\<close>

fun py_floordiv :: "pyval \<Rightarrow> int \<Rightarrow> exn + pyval" where
  "py_floordiv (PBool b) n = Inr (PInt ((if b then 1 else 0) div n))"
| "py_floordiv (PInt i) n = Inr (PInt (i div n))"
| "py_floordiv (PFloat r) n = Inr (PFloat (of_int \<lfloor>r / of_int n\<rfloor>))"
| "py_floordiv _ n = Inl TypeError"

text \<open>
  Library functions whose result no property below depends on are parameters of the
  model: \<open>strip\<close> is \<^verbatim>\<open>str.strip\<close>, \<open>strftime\<close> is
  \<^verbatim>\<open>datetime.fromtimestamp(t).strftime('%Y-%m-%d %H:%M:%S')\<close> (\<open>None\<close> when it
  raises), \<open>str_of\<close> is \<^verbatim>\<open>str\<close>.
\<close>

record pylib =
  strip :: "string \<Rightarrow> string"
  strftime :: "pyval \<Rightarrow> string option"
  str_of :: "pyval \<Rightarrow> string"

fun py_strip :: "pylib \<Rightarrow> pyval \<Rightarrow> exn + pyval" where
  "py_strip lib (PStr s) = Inr (PStr (strip lib s))"
| "py_strip lib _ = Inl AttributeError"

section \<open>crawl\_mix\_api.py: parsing one comment\<close>

text \<open>The dictionary that \<^verbatim>\<open>DouyinAPICrawler._parse_comment\<close> returns.\<close>

record comment_row =
  comment_id :: pyval
  row_text :: pyval
  user :: pyval
  user_id :: pyval
  digg_count :: pyval
  reply_count :: pyval
  create_time :: string
  ip_label :: pyval
  level :: int
  reply_to :: pyval

text \<open>The body of the \<^verbatim>\<open>try\<close> block, statement by statement.\<close>

definition parse_comment_try :: "pylib \<Rightarrow> pyval \<Rightarrow> int \<Rightarrow> exn + comment_row" where
  "parse_comment_try lib comment lvl =
     andthen (py_get comment ''cid'' (PStr [])) (\<lambda>cid.
     andthen (py_get comment ''text'' (PStr [])) (\<lambda>raw_text.
     andthen (py_strip lib raw_text) (\<lambda>txt.
     andthen (py_get comment ''create_time'' (PInt 0)) (\<lambda>ct0.
     andthen (py_gt ct0 10000000000) (\<lambda>millis.
     andthen (if millis then py_floordiv ct0 1000 else Inr ct0) (\<lambda>ct.
     let time_str = (case strftime lib ct of None \<Rightarrow> [] | Some s \<Rightarrow> s) in
     andthen (py_get comment ''user'' (PDict [])) (\<lambda>usr.
     andthen (py_get usr ''nickname'' (PStr [])) (\<lambda>nickname.
     andthen (py_get usr ''uid'' (PStr [])) (\<lambda>uid.
     andthen (if truthy uid then Inr uid else py_get usr ''sec_uid'' (PStr [])) (\<lambda>uid_or_sec.
     andthen (py_get comment ''ip_label'' (PStr [])) (\<lambda>ip.
     andthen (py_get comment ''reply_to_userid'' PNone) (\<lambda>target.
     andthen (if truthy target
              then andthen (py_get comment ''reply_to_username'' (PStr [])) (\<lambda>uname.
                   if truthy uname then Inr uname
                   else andthen (py_get comment ''reply_to_userid'' (PStr [])) (\<lambda>tid.
                        Inr (PStr (str_of lib tid))))
              else Inr (PStr [])) (\<lambda>target_name.
     andthen (py_get comment ''digg_count'' (PInt 0)) (\<lambda>diggs.
     andthen (py_get comment ''reply_comment_total'' (PInt 0)) (\<lambda>total.
     Inr \<lparr>comment_id = cid, row_text = txt, user = nickname, user_id = uid_or_sec,
          digg_count = diggs, reply_count = total, create_time = time_str,
          ip_label = ip, level = lvl, reply_to = target_name\<rparr>)))))))))))))))"

text \<open>The \<^verbatim>\<open>except Exception\<close> block: it reads the dictionary again.\<close>

definition parse_comment_except :: "pyval \<Rightarrow> int \<Rightarrow> exn + comment_row" where
  "parse_comment_except comment lvl =
     andthen (py_get comment ''cid'' (PStr [])) (\<lambda>cid.
     andthen (py_get comment ''text'' (PStr [])) (\<lambda>raw_text.
     Inr \<lparr>comment_id = cid, row_text = raw_text, user = PStr [], user_id = PStr [],
          digg_count = PInt 0, reply_count = PInt 0, create_time = [],
          ip_label = PStr [], level = lvl, reply_to = PStr []\<rparr>))"

definition parse_comment :: "pylib \<Rightarrow> pyval \<Rightarrow> int \<Rightarrow> exn + comment_row" where
  "parse_comment lib comment lvl =
     (case parse_comment_try lib comment lvl of
        Inr row \<Rightarrow> Inr row
      | Inl e \<Rightarrow> if is_Exception e then parse_comment_except comment lvl else Inl e)"

section \<open>The feed: the web API the crawlers call\<close>

text \<open>
  The harvesting loops are modelled on well-typed records: in a comment dictionary the
  key \<open>cid\<close> holds a string and \<open>reply_comment_total\<close> an integer (a missing key is
  the default the code supplies, the empty string and 0); the other keys are arbitrary
  JSON values. An entry of a page that is not a dictionary is \<open>Malformed\<close>: reading it
  raises.
\<close>

record raw_comment =
  cid :: string
  reply_comment_total :: int
  other_keys :: "(string \<times> pyval) list"

definition as_dict :: "raw_comment \<Rightarrow> pyval" where
  "as_dict c = PDict ((''cid'', PStr (cid c)) #
                      (''reply_comment_total'', PInt (reply_comment_total c)) # other_keys c)"

datatype item = Comment raw_comment | Malformed

record page =
  page_comments :: "item list"
  has_more :: int
  cursor :: int

text \<open>
  One call of the API either raises or returns; what it returns is a page, or something
  empty (\<open>None\<close>, an empty dictionary), which is \<open>Returns None\<close>.
\<close>

datatype response = Raises exn | Returns "page option"

text \<open>
  The API is an external collaborator (\<^verbatim>\<open>crawlers.douyin.web.web_crawler\<close>): any
  state \<open>'s\<close> of the outside world, and two calls that read and change it.
  \<open>api_fetch_video_comments aweme_id cursor\<close> asks for a page of root comments,
  \<open>api_fetch_video_comments_reply item_id comment_id cursor\<close> for a page of replies.
\<close>

record 's api =
  api_fetch_video_comments :: "string \<Rightarrow> int \<Rightarrow> 's \<Rightarrow> response \<times> 's"
  api_fetch_video_comments_reply :: "string \<Rightarrow> string \<Rightarrow> int \<Rightarrow> 's \<Rightarrow> response \<times> 's"

text \<open>
  How a \<^verbatim>\<open>while\<close> iteration ends: it leaves the loop with a result, or goes round
  again with a new loop state.
\<close>

datatype ('r, 'c) step = Break 'r | Continue 'c

section \<open>crawl\_mix\_api.py: DouyinAPICrawler\<close>

text \<open>
  Logging, sleeping and the statistics counters are left out. A loop that may go on for
  ever takes fuel: \<open>None\<close> is "no result within the fuel". The result of a harvest is
  \<open>Inl e\<close> when exception \<open>e\<close> leaves the function, \<open>Inr\<close> of the returned value
  otherwise.
\<close>

record crawler =
  max_comments :: int
  fetch_replies :: bool

text \<open>The accumulated list with its set of seen ids (\<open>comments\<close>, \<open>comment_ids\<close>).\<close>

type_synonym session = "comment_row list \<times> pyval set"

text \<open>
  \<^verbatim>\<open>fetch_comment_replies\<close>, the \<^verbatim>\<open>for reply in comment_list\<close> loop. The second
  component is the exception that aborted the loop, if any.
\<close>

fun replies_for :: "pylib \<Rightarrow> int \<Rightarrow> item list \<Rightarrow> session \<Rightarrow> session \<times> exn option" where
  "replies_for lib max_replies [] st = (st, None)"
| "replies_for lib max_replies (Malformed # rest) st = (st, Some AttributeError)"
| "replies_for lib max_replies (Comment reply # rest) (replies, reply_ids) =
     (if cid reply = [] \<or> PStr (cid reply) \<in> reply_ids
      then replies_for lib max_replies rest (replies, reply_ids)
      else case parse_comment lib (as_dict reply) 2 of
             Inl e \<Rightarrow> ((replies, insert (PStr (cid reply)) reply_ids), Some e)
           | Inr parsed \<Rightarrow>
               if int (length (replies @ [parsed])) \<ge> max_replies
               then ((replies @ [parsed], insert (PStr (cid reply)) reply_ids), None)
               else replies_for lib max_replies rest
                      (replies @ [parsed], insert (PStr (cid reply)) reply_ids))"

text \<open>One iteration of \<^verbatim>\<open>while len(replies) < max_replies\<close>, after the test.\<close>

definition reply_iteration ::
  "'s api \<Rightarrow> pylib \<Rightarrow> string \<Rightarrow> string \<Rightarrow> int \<Rightarrow> int \<times> session \<Rightarrow> 's \<Rightarrow>
     (exn + session, int \<times> session) step \<times> 's" where
  "reply_iteration api lib aweme_id root_cid max_replies cst s =
     (case api_fetch_video_comments_reply api aweme_id root_cid (fst cst) s of
        (Raises e, s') \<Rightarrow> (Break (if is_Exception e then Inr (snd cst) else Inl e), s')
      | (Returns None, s') \<Rightarrow> (Break (Inr (snd cst)), s')
      | (Returns (Some resp), s') \<Rightarrow>
          if page_comments resp = [] then (Break (Inr (snd cst)), s')
          else (case replies_for lib max_replies (page_comments resp) (snd cst) of
                  (st', Some e) \<Rightarrow> (Break (if is_Exception e then Inr st' else Inl e), s')
                | (st', None) \<Rightarrow>
                    if has_more resp = 0 \<or> cursor resp = fst cst then (Break (Inr st'), s')
                    else (Continue (cursor resp, st'), s')))"

fun fetch_comment_replies_loop ::
  "nat \<Rightarrow> 's api \<Rightarrow> pylib \<Rightarrow> string \<Rightarrow> string \<Rightarrow> int \<Rightarrow> int \<times> session \<Rightarrow> 's \<Rightarrow>
     ((exn + session) \<times> 's) option" where
  "fetch_comment_replies_loop 0 api lib aweme_id root_cid max_replies cst s = None"
| "fetch_comment_replies_loop (Suc n) api lib aweme_id root_cid max_replies cst s =
     (if int (length (fst (snd cst))) < max_replies
      then (case reply_iteration api lib aweme_id root_cid max_replies cst s of
              (Break r, s') \<Rightarrow> Some (r, s')
            | (Continue cst', s') \<Rightarrow>
                fetch_comment_replies_loop n api lib aweme_id root_cid max_replies cst' s')
      else Some (Inr (snd cst), s))"

definition fetch_comment_replies ::
  "nat \<Rightarrow> 's api \<Rightarrow> pylib \<Rightarrow> string \<Rightarrow> string \<Rightarrow> int \<Rightarrow> 's \<Rightarrow>
     ((exn + comment_row list) \<times> 's) option" where
  "fetch_comment_replies fuel api lib aweme_id root_cid expected_count s =
     (case fetch_comment_replies_loop fuel api lib aweme_id root_cid
             (min expected_count 100) (0, ([], {})) s of
        None \<Rightarrow> None
      | Some (Inl e, s') \<Rightarrow> Some (Inl e, s')
      | Some (Inr st, s') \<Rightarrow> Some (Inr (fst st), s'))"

text \<open>\<^verbatim>\<open>fetch_video_comments\<close>: the replies that are not yet known are appended.\<close>

fun add_replies :: "comment_row list \<Rightarrow> session \<Rightarrow> session" where
  "add_replies [] st = st"
| "add_replies (reply # rest) (comments, comment_ids) =
     (if comment_id reply \<notin> comment_ids
      then add_replies rest (comments @ [reply], insert (comment_id reply) comment_ids)
      else add_replies rest (comments, comment_ids))"

text \<open>The part of the loop body that fetches and appends the replies of one root.\<close>

definition attach_replies ::
  "nat \<Rightarrow> crawler \<Rightarrow> 's api \<Rightarrow> pylib \<Rightarrow> string \<Rightarrow> raw_comment \<Rightarrow> session \<Rightarrow> 's \<Rightarrow>
     ((session \<times> exn option) \<times> 's) option" where
  "attach_replies fuel cfg api lib aweme_id comment st s =
     (if fetch_replies cfg \<and> reply_comment_total comment > 0
      then (case fetch_comment_replies fuel api lib aweme_id (cid comment)
                   (reply_comment_total comment) s of
              None \<Rightarrow> None
            | Some (Inl e, s') \<Rightarrow> Some ((st, Some e), s')
            | Some (Inr replies, s') \<Rightarrow> Some ((add_replies replies st, None), s'))
      else Some ((st, None), s))"

text \<open>The \<^verbatim>\<open>for comment in comment_list\<close> loop of \<^verbatim>\<open>fetch_video_comments\<close>.\<close>

fun comments_for ::
  "nat \<Rightarrow> crawler \<Rightarrow> 's api \<Rightarrow> pylib \<Rightarrow> string \<Rightarrow> item list \<Rightarrow> session \<Rightarrow> 's \<Rightarrow>
     ((session \<times> exn option) \<times> 's) option" where
  "comments_for fuel cfg api lib aweme_id [] st s = Some ((st, None), s)"
| "comments_for fuel cfg api lib aweme_id (Malformed # rest) st s =
     Some ((st, Some AttributeError), s)"
| "comments_for fuel cfg api lib aweme_id (Comment comment # rest) (comments, comment_ids) s =
     (if cid comment = [] \<or> PStr (cid comment) \<in> comment_ids
      then comments_for fuel cfg api lib aweme_id rest (comments, comment_ids) s
      else case parse_comment lib (as_dict comment) 1 of
             Inl e \<Rightarrow> Some (((comments, insert (PStr (cid comment)) comment_ids), Some e), s)
           | Inr parsed \<Rightarrow>
               (case attach_replies fuel cfg api lib aweme_id comment
                       (comments @ [parsed], insert (PStr (cid comment)) comment_ids) s of
                  None \<Rightarrow> None
                | Some ((st', Some e), s') \<Rightarrow> Some ((st', Some e), s')
                | Some ((st', None), s') \<Rightarrow>
                    if int (length (fst st')) \<ge> max_comments cfg then Some ((st', None), s')
                    else comments_for fuel cfg api lib aweme_id rest st' s'))"

text \<open>One iteration of \<^verbatim>\<open>while len(comments) < self.max_comments\<close>, after the test.\<close>

definition comments_iteration ::
  "nat \<Rightarrow> crawler \<Rightarrow> 's api \<Rightarrow> pylib \<Rightarrow> string \<Rightarrow> int \<times> session \<Rightarrow> 's \<Rightarrow>
     ((exn + session, int \<times> session) step \<times> 's) option" where
  "comments_iteration fuel cfg api lib aweme_id cst s =
     (case api_fetch_video_comments api aweme_id (fst cst) s of
        (Raises e, s') \<Rightarrow> Some (Break (if is_Exception e then Inr (snd cst) else Inl e), s')
      | (Returns None, s') \<Rightarrow> Some (Break (Inr (snd cst)), s')
      | (Returns (Some resp), s') \<Rightarrow>
          if page_comments resp = [] then Some (Break (Inr (snd cst)), s')
          else (case comments_for fuel cfg api lib aweme_id (page_comments resp) (snd cst) s' of
                  None \<Rightarrow> None
                | Some ((st', Some e), s'') \<Rightarrow>
                    Some (Break (if is_Exception e then Inr st' else Inl e), s'')
                | Some ((st', None), s'') \<Rightarrow>
                    if has_more resp = 0 \<or> cursor resp = fst cst
                    then Some (Break (Inr st'), s'')
                    else Some (Continue (cursor resp, st'), s'')))"

fun fetch_video_comments_loop ::
  "nat \<Rightarrow> crawler \<Rightarrow> 's api \<Rightarrow> pylib \<Rightarrow> string \<Rightarrow> int \<times> session \<Rightarrow> 's \<Rightarrow>
     ((exn + session) \<times> 's) option" where
  "fetch_video_comments_loop 0 cfg api lib aweme_id cst s = None"
| "fetch_video_comments_loop (Suc n) cfg api lib aweme_id cst s =
     (if int (length (fst (snd cst))) < max_comments cfg
      then (case comments_iteration n cfg api lib aweme_id cst s of
              None \<Rightarrow> None
            | Some (Break r, s') \<Rightarrow> Some (r, s')
            | Some (Continue cst', s') \<Rightarrow> fetch_video_comments_loop n cfg api lib aweme_id cst' s')
      else Some (Inr (snd cst), s))"

definition fetch_video_comments ::
  "nat \<Rightarrow> crawler \<Rightarrow> 's api \<Rightarrow> pylib \<Rightarrow> string \<Rightarrow> 's \<Rightarrow>
     ((exn + comment_row list) \<times> 's) option" where
  "fetch_video_comments fuel cfg api lib aweme_id s =
     (case fetch_video_comments_loop fuel cfg api lib aweme_id (0, ([], {})) s of
        None \<Rightarrow> None
      | Some (Inl e, s') \<Rightarrow> Some (Inl e, s')
      | Some (Inr st, s') \<Rightarrow> Some (Inr (fst st), s'))"

text \<open>
  \<^verbatim>\<open>crawl_mix\<close>, the loop over the videos. \<open>process_video\<close> is a parameter: it
  changes the world and returns the exception it raised, if any. The two counters are
  \<open>processed_videos\<close>, which \<open>process_video\<close> increments as its last statement, and
  \<open>failed_videos\<close>.
\<close>

fun crawl_mix_loop ::
  "('v \<Rightarrow> 'w \<Rightarrow> exn option \<times> 'w) \<Rightarrow> 'v list \<Rightarrow> nat \<times> nat \<Rightarrow> 'w \<Rightarrow> exn + ((nat \<times> nat) \<times> 'w)" where
  "crawl_mix_loop process_video [] stats w = Inr (stats, w)"
| "crawl_mix_loop process_video (video # rest) (processed, failed) w =
     (case process_video video w of
        (None, w') \<Rightarrow> crawl_mix_loop process_video rest (processed + 1, failed) w'
      | (Some e, w') \<Rightarrow>
          if e = KeyboardInterrupt then Inr ((processed, failed), w')
          else if is_Exception e
          then crawl_mix_loop process_video rest (processed, failed + 1) w'
          else Inl e)"


section \<open>crawl\_mix\_complete.py: MixCrawler\<close>

text \<open>
  The row that \<^verbatim>\<open>format_comment_row\<close> builds. The columns that are always the empty
  string are left out; \<open>tier\<close> is the level \<open>n\<close> of the column
  \<^verbatim>\<open>f"comment{level}"\<close>.
\<close>

record mix_row =
  video_id :: pyval
  tier :: int
  row_id :: pyval
  parent_id :: string
  content :: pyval
  commenter :: pyval
  likes :: pyval
  time_text :: string

definition format_comment_row :: "pylib \<Rightarrow> pyval \<Rightarrow> int \<Rightarrow> string \<Rightarrow> exn + mix_row" where
  "format_comment_row lib comment lvl parent =
     andthen (py_get comment ''user'' PNone) (\<lambda>u.
     let usr = (if truthy u then u else PDict []) in
     andthen (py_get comment ''create_time'' (PInt 0)) (\<lambda>ts.
     andthen (py_get comment ''aweme_id'' (PStr [])) (\<lambda>vid.
     andthen (py_get comment ''cid'' (PStr [])) (\<lambda>cid.
     andthen (py_get comment ''text'' (PStr [])) (\<lambda>txt.
     andthen (py_get usr ''nickname'' (PStr [])) (\<lambda>nickname.
     andthen (py_get comment ''digg_count'' (PInt 0)) (\<lambda>diggs.
     andthen (if truthy ts
              then (case strftime lib ts of None \<Rightarrow> Inl ValueError | Some t \<Rightarrow> Inr t)
              else Inr []) (\<lambda>t.
     Inr \<lparr>video_id = vid, tier = lvl, row_id = cid, parent_id = parent, content = txt,
          commenter = nickname, likes = diggs, time_text = t\<rparr>))))))))"

text \<open>\<^verbatim>\<open>get_comment_replies\<close>: the \<^verbatim>\<open>for r in data\<close> loop.\<close>

fun mix_replies_for ::
  "pylib \<Rightarrow> string \<Rightarrow> int \<Rightarrow> item list \<Rightarrow> mix_row list \<Rightarrow> mix_row list \<times> exn option" where
  "mix_replies_for lib parent max_needed [] replies = (replies, None)"
| "mix_replies_for lib parent max_needed (Malformed # rest) replies =
     (replies, Some AttributeError)"
| "mix_replies_for lib parent max_needed (Comment r # rest) replies =
     (case format_comment_row lib (as_dict r) 2 parent of
        Inl e \<Rightarrow> (replies, Some e)
      | Inr row \<Rightarrow>
          if int (length (replies @ [row])) \<ge> max_needed then (replies @ [row], None)
          else mix_replies_for lib parent max_needed rest (replies @ [row]))"

text \<open>One iteration of \<^verbatim>\<open>while len(replies) < max_needed\<close>, after the test.\<close>

definition mix_reply_iteration ::
  "'s api \<Rightarrow> pylib \<Rightarrow> string \<Rightarrow> string \<Rightarrow> int \<Rightarrow> int \<times> mix_row list \<Rightarrow> 's \<Rightarrow>
     (exn + mix_row list, int \<times> mix_row list) step \<times> 's" where
  "mix_reply_iteration api lib item_id parent max_needed cst s =
     (case api_fetch_video_comments_reply api item_id parent (fst cst) s of
        (Raises e, s') \<Rightarrow> (Break (if is_Exception e then Inr (snd cst) else Inl e), s')
      | (Returns None, s') \<Rightarrow> (Break (Inr (snd cst)), s')
      | (Returns (Some resp), s') \<Rightarrow>
          if page_comments resp = [] then (Break (Inr (snd cst)), s')
          else (case mix_replies_for lib parent max_needed (page_comments resp) (snd cst) of
                  (replies, Some e) \<Rightarrow>
                    (Break (if is_Exception e then Inr replies else Inl e), s')
                | (replies, None) \<Rightarrow>
                    if has_more resp = 1 then (Continue (cursor resp, replies), s')
                    else (Break (Inr replies), s')))"

fun get_comment_replies_loop ::
  "nat \<Rightarrow> 's api \<Rightarrow> pylib \<Rightarrow> string \<Rightarrow> string \<Rightarrow> int \<Rightarrow> int \<times> mix_row list \<Rightarrow> 's \<Rightarrow>
     ((exn + mix_row list) \<times> 's) option" where
  "get_comment_replies_loop 0 api lib item_id parent max_needed cst s = None"
| "get_comment_replies_loop (Suc n) api lib item_id parent max_needed cst s =
     (if int (length (snd cst)) < max_needed
      then (case mix_reply_iteration api lib item_id parent max_needed cst s of
              (Break r, s') \<Rightarrow> Some (r, s')
            | (Continue cst', s') \<Rightarrow>
                get_comment_replies_loop n api lib item_id parent max_needed cst' s')
      else Some (Inr (snd cst), s))"

definition get_comment_replies ::
  "nat \<Rightarrow> 's api \<Rightarrow> pylib \<Rightarrow> string \<Rightarrow> string \<Rightarrow> int \<Rightarrow> 's \<Rightarrow>
     ((exn + mix_row list) \<times> 's) option" where
  "get_comment_replies fuel api lib item_id parent max_needed s =
     get_comment_replies_loop fuel api lib item_id parent max_needed (0, []) s"

text \<open>\<^verbatim>\<open>get_all_comments\<close>: the \<^verbatim>\<open>for c in comments\<close> loop.\<close>

fun mix_comments_for ::
  "nat \<Rightarrow> int \<Rightarrow> 's api \<Rightarrow> pylib \<Rightarrow> string \<Rightarrow> item list \<Rightarrow> mix_row list \<Rightarrow> 's \<Rightarrow>
     ((mix_row list \<times> exn option) \<times> 's) option" where
  "mix_comments_for fuel maxc api lib aweme_id [] collected s = Some ((collected, None), s)"
| "mix_comments_for fuel maxc api lib aweme_id (Malformed # rest) collected s =
     Some ((collected, Some AttributeError), s)"
| "mix_comments_for fuel maxc api lib aweme_id (Comment c # rest) collected s =
     (case format_comment_row lib (as_dict c) 1 [] of
        Inl e \<Rightarrow> Some ((collected, Some e), s)
      | Inr row \<Rightarrow>
          if reply_comment_total c > 0 \<and> int (length (collected @ [row])) < maxc
          then (case get_comment_replies fuel api lib aweme_id (cid c)
                       (maxc - int (length (collected @ [row]))) s of
                  None \<Rightarrow> None
                | Some (Inl e, s') \<Rightarrow> Some ((collected @ [row], Some e), s')
                | Some (Inr replies, s') \<Rightarrow>
                    if int (length (collected @ [row] @ replies)) \<ge> maxc
                    then Some ((collected @ [row] @ replies, None), s')
                    else mix_comments_for fuel maxc api lib aweme_id rest
                           (collected @ [row] @ replies) s')
          else if int (length (collected @ [row])) \<ge> maxc
               then Some ((collected @ [row], None), s)
               else mix_comments_for fuel maxc api lib aweme_id rest (collected @ [row]) s)"

text \<open>One iteration of \<^verbatim>\<open>while len(collected) < self.max_comments\<close>, after the test.\<close>

definition mix_comments_iteration ::
  "nat \<Rightarrow> int \<Rightarrow> 's api \<Rightarrow> pylib \<Rightarrow> string \<Rightarrow> int \<times> mix_row list \<Rightarrow> 's \<Rightarrow>
     ((exn + mix_row list, int \<times> mix_row list) step \<times> 's) option" where
  "mix_comments_iteration fuel maxc api lib aweme_id cst s =
     (case api_fetch_video_comments api aweme_id (fst cst) s of
        (Raises e, s') \<Rightarrow> Some (Break (if is_Exception e then Inr (snd cst) else Inl e), s')
      | (Returns None, s') \<Rightarrow> Some (Break (Inr (snd cst)), s')
      | (Returns (Some resp), s') \<Rightarrow>
          if page_comments resp = [] then Some (Break (Inr (snd cst)), s')
          else (case mix_comments_for fuel maxc api lib aweme_id (page_comments resp)
                       (snd cst) s' of
                  None \<Rightarrow> None
                | Some ((collected, Some e), s'') \<Rightarrow>
                    Some (Break (if is_Exception e then Inr collected else Inl e), s'')
                | Some ((collected, None), s'') \<Rightarrow>
                    if has_more resp = 1 then Some (Continue (cursor resp, collected), s'')
                    else Some (Break (Inr collected), s'')))"

fun get_all_comments_loop ::
  "nat \<Rightarrow> int \<Rightarrow> 's api \<Rightarrow> pylib \<Rightarrow> string \<Rightarrow> int \<times> mix_row list \<Rightarrow> 's \<Rightarrow>
     ((exn + mix_row list) \<times> 's) option" where
  "get_all_comments_loop 0 maxc api lib aweme_id cst s = None"
| "get_all_comments_loop (Suc n) maxc api lib aweme_id cst s =
     (if int (length (snd cst)) < maxc
      then (case mix_comments_iteration n maxc api lib aweme_id cst s of
              None \<Rightarrow> None
            | Some (Break r, s') \<Rightarrow> Some (r, s')
            | Some (Continue cst', s') \<Rightarrow> get_all_comments_loop n maxc api lib aweme_id cst' s')
      else Some (Inr (snd cst), s))"

text \<open>\<open>maxc\<close> is \<^verbatim>\<open>self.max_comments\<close> of the \<^verbatim>\<open>MixCrawler\<close>.\<close>

definition get_all_comments ::
  "nat \<Rightarrow> int \<Rightarrow> 's api \<Rightarrow> pylib \<Rightarrow> string \<Rightarrow> 's \<Rightarrow> ((exn + mix_row list) \<times> 's) option" where
  "get_all_comments fuel maxc api lib aweme_id s =
     get_all_comments_loop fuel maxc api lib aweme_id (0, []) s"

section \<open>crawl\_mix\_drission.py: DrissionMixCrawler\<close>

text \<open>
  The rows of this crawler are dictionaries. \<^verbatim>\<open>_parse_comment\<close> of this class is a
  parameter \<open>parse\<close>: it returns a dictionary for every dictionary (its \<^verbatim>\<open>except\<close>
  block builds one), and no property below depends on what the dictionary holds.
  \<open>py_setitem\<close> is \<^verbatim>\<open>d[k] = v\<close>.
\<close>

type_synonym pydict = "(string \<times> pyval) list"

definition py_setitem :: "string \<Rightarrow> pyval \<Rightarrow> pydict \<Rightarrow> pydict" where
  "py_setitem k v d = (k, v) # filter (\<lambda>kv. fst kv \<noteq> k) d"

text \<open>
  The coverage percentage, as \<^verbatim>\<open>process_video\<close> and the scroll loop compute it:
  \<^verbatim>\<open>(actual_count / total_expected * 100) if total_expected > 0 else 0\<close>. The
  quotient is a float in Python and the exact quotient here.
\<close>

definition coverage :: "int \<Rightarrow> int \<Rightarrow> real" where
  "coverage actual_count total_expected =
     (if total_expected > 0
      then real_of_int actual_count / real_of_int total_expected * 100 else 0)"

text \<open>
  \<^verbatim>\<open>process_video\<close> (both crawlers) evaluates the coverage only under the guard
  \<^verbatim>\<open>if crawl_comments and total_expected > 0\<close>; \<open>None\<close> is "not evaluated".
\<close>

definition process_video_coverage :: "bool \<Rightarrow> int \<Rightarrow> int \<Rightarrow> real option" where
  "process_video_coverage crawl_comments total_expected actual_count =
     (if crawl_comments \<and> total_expected > 0
      then Some (coverage actual_count total_expected) else None)"

text \<open>
  \<^verbatim>\<open>get_video_comments_api\<close>: root comments only, through the API. The loop
  \<^verbatim>\<open>while page < max_pages and len(comments) < self.max_comments\<close> with
  \<open>max_pages = 200\<close> is a recursion on the number of pages that are left.
\<close>

fun api_page_for ::
  "(pyval \<Rightarrow> pydict) \<Rightarrow> item list \<Rightarrow> pydict list \<times> pyval set \<Rightarrow>
     (pydict list \<times> pyval set) \<times> exn option" where
  "api_page_for parse [] st = (st, None)"
| "api_page_for parse (Malformed # rest) st = (st, Some AttributeError)"
| "api_page_for parse (Comment comment # rest) (comments, comment_ids) =
     (if cid comment \<noteq> [] \<and> PStr (cid comment) \<notin> comment_ids
      then api_page_for parse rest
             (comments @ [py_setitem ''level'' (PInt 1) (parse (as_dict comment))],
              insert (PStr (cid comment)) comment_ids)
      else api_page_for parse rest (comments, comment_ids))"

definition api_pages_iteration ::
  "'w api \<Rightarrow> (pyval \<Rightarrow> pydict) \<Rightarrow> string \<Rightarrow> int \<times> (pydict list \<times> pyval set) \<Rightarrow> 'w \<Rightarrow>
     (exn + (pydict list \<times> pyval set), int \<times> (pydict list \<times> pyval set)) step \<times> 'w" where
  "api_pages_iteration api parse aweme_id cst w =
     (case api_fetch_video_comments api aweme_id (fst cst) w of
        (Raises e, w') \<Rightarrow> (Break (if is_Exception e then Inr (snd cst) else Inl e), w')
      | (Returns None, w') \<Rightarrow> (Break (Inr (snd cst)), w')
      | (Returns (Some result), w') \<Rightarrow>
          if page_comments result = [] then (Break (Inr (snd cst)), w')
          else (case api_page_for parse (page_comments result) (snd cst) of
                  (st', Some e) \<Rightarrow> (Break (if is_Exception e then Inr st' else Inl e), w')
                | (st', None) \<Rightarrow>
                    if has_more result = 0 \<or> cursor result = fst cst then (Break (Inr st'), w')
                    else (Continue (cursor result, st'), w')))"

fun fetch_comments_pages ::
  "nat \<Rightarrow> int \<Rightarrow> 'w api \<Rightarrow> (pyval \<Rightarrow> pydict) \<Rightarrow> string \<Rightarrow>
     int \<times> (pydict list \<times> pyval set) \<Rightarrow> 'w \<Rightarrow> (exn + (pydict list \<times> pyval set)) \<times> 'w" where
  "fetch_comments_pages 0 maxc api parse aweme_id cst w = (Inr (snd cst), w)"
| "fetch_comments_pages (Suc pages_left) maxc api parse aweme_id cst w =
     (if int (length (fst (snd cst))) < maxc
      then (case api_pages_iteration api parse aweme_id cst w of
              (Break r, w') \<Rightarrow> (r, w')
            | (Continue cst', w') \<Rightarrow>
                fetch_comments_pages pages_left maxc api parse aweme_id cst' w')
      else (Inr (snd cst), w))"

definition get_video_comments_api ::
  "int \<Rightarrow> 'w api \<Rightarrow> (pyval \<Rightarrow> pydict) \<Rightarrow> string \<Rightarrow> int \<Rightarrow> 'w \<Rightarrow> (exn + pydict list) \<times> 'w" where
  "get_video_comments_api maxc api parse aweme_id expected_count w =
     (case fetch_comments_pages 200 maxc api parse aweme_id (0, ([], {})) w of
        (Inl e, w') \<Rightarrow> (Inl e, w')
      | (Inr st, w') \<Rightarrow> (Inr (fst st), w'))"

text \<open>
  \<^verbatim>\<open>process_video\<close>, the choice of the strategy. The browser strategy
  \<^verbatim>\<open>get_video_comments\<close> drives a browser and is a parameter; it returns \<open>None\<close>
  when the video does not exist. The result is the list of comments and the flag
  \<open>video_not_exist\<close>.
\<close>

definition LARGE_COMMENT_THRESHOLD :: int where
  "LARGE_COMMENT_THRESHOLD = 1500"

definition process_video_comments ::
  "int \<Rightarrow> 'w api \<Rightarrow> (pyval \<Rightarrow> pydict) \<Rightarrow>
     (string \<Rightarrow> int \<Rightarrow> 'w \<Rightarrow> (exn + pydict list option) \<times> 'w) \<Rightarrow>
     bool \<Rightarrow> string \<Rightarrow> int \<Rightarrow> 'w \<Rightarrow> (exn + (pydict list \<times> bool)) \<times> 'w" where
  "process_video_comments maxc api parse get_video_comments crawl_comments aweme_id
     total_expected w =
     (if crawl_comments \<and> total_expected > 0
      then (if total_expected > LARGE_COMMENT_THRESHOLD
            then (case get_video_comments_api maxc api parse aweme_id total_expected w of
                    (Inl e, w') \<Rightarrow> (Inl e, w')
                  | (Inr comments, w') \<Rightarrow> (Inr (comments, False), w'))
            else (case get_video_comments aweme_id total_expected w of
                    (Inl e, w') \<Rightarrow> (Inl e, w')
                  | (Inr None, w') \<Rightarrow> (Inr ([], True), w')
                  | (Inr (Some comments), w') \<Rightarrow> (Inr (comments, False), w')))
      else (Inr ([], False), w))"

text \<open>
  \<^verbatim>\<open>get_video_comments\<close>, the scroll loop
  (\<^verbatim>\<open>while scroll_round < max_scroll_rounds and len(comments) < self.max_comments\<close>).
  The browser is a state \<open>'w\<close> with the operations the loop uses: \<open>listen_wait\<close> is
  \<^verbatim>\<open>self.driver.listen.wait(timeout=0.3)\<close>, which gives a packet or nothing;
  \<open>js_scroll\<close> is the local function of that name; \<open>sleep\<close> is \<^verbatim>\<open>time.sleep\<close>
  and \<open>time_now\<close> is \<^verbatim>\<open>time.time()\<close>; \<open>get_scroll_position\<close> is the local
  function of that name; \<open>scroll_down\<close> is \<^verbatim>\<open>self.driver.scroll.down\<close> with its
  fallback; \<open>check_captcha\<close>, \<open>handle_captcha\<close> and \<open>try_expand_replies\<close> are the
  methods of these names; \<open>bottom_marker\<close> says whether \<^verbatim>\<open>self.driver.html\<close> holds
  one of the two end-of-comments markers. The operations are taken to return: the loop
  runs inside \<^verbatim>\<open>try: ... except Exception\<close>, which would end it with the comments
  collected so far. The body of a packet is \<open>None\<close> when it is empty or has no key
  \<open>comments\<close>.
\<close>

datatype packet = Packet "item list option"

record 'w browser =
  listen_wait :: "'w \<Rightarrow> packet option \<times> 'w"
  js_scroll :: "int \<Rightarrow> 'w \<Rightarrow> 'w"
  sleep :: "real \<Rightarrow> 'w \<Rightarrow> 'w"
  time_now :: "'w \<Rightarrow> real"
  get_scroll_position :: "'w \<Rightarrow> real"
  scroll_down :: "int \<Rightarrow> 'w \<Rightarrow> 'w"
  check_captcha :: "'w \<Rightarrow> bool \<times> 'w"
  handle_captcha :: "'w \<Rightarrow> 'w"
  try_expand_replies :: "'w \<Rightarrow> 'w"
  bottom_marker :: "'w \<Rightarrow> bool"

text \<open>The variables of the loop.\<close>

record scroll_state =
  sc_comments :: "pydict list"
  sc_comment_ids :: "pyval set"
  scroll_round :: int
  no_new_count :: int
  last_count :: int
  stall_rounds :: int
  last_scroll_pos :: real
  scroll_failed_count :: int
  last_log_time :: real
  last_log_count :: int

text \<open>The constants that \<^verbatim>\<open>get_video_comments\<close> derives from the expected count.\<close>

definition is_large_comment :: "int \<Rightarrow> bool" where
  "is_large_comment expected_count \<longleftrightarrow> expected_count > 500"


definition max_no_new_rounds :: "int \<Rightarrow> int" where
  "max_no_new_rounds expected_count = (if is_large_comment expected_count then 50 else 30)"

definition scroll_speed :: "int \<Rightarrow> int" where
  "scroll_speed expected_count = (if is_large_comment expected_count then 150 else 100)"

text \<open>\<^verbatim>\<open>str(x)\<close>: a string is its own text, anything else is left to the library.\<close>

fun py_str :: "pylib \<Rightarrow> pyval \<Rightarrow> string" where
  "py_str lib (PStr s) = s"
| "py_str lib v = str_of lib v"

text \<open>
  The id under which the loop knows a comment,
  \<^verbatim>\<open>comment.get('cid', '') or str(comment.get('id', ''))\<close>.
\<close>

definition comment_key :: "pylib \<Rightarrow> raw_comment \<Rightarrow> string" where
  "comment_key lib comment =
     (if cid comment \<noteq> [] then cid comment
      else (case py_get (as_dict comment) ''id'' (PStr []) of
              Inr v \<Rightarrow> py_str lib v
            | Inl e \<Rightarrow> []))"

text \<open>
  The comments of one packet, as the round and the final check of the bottom detection
  read them. The loop runs inside \<^verbatim>\<open>try: ... except: pass\<close>: an entry that cannot
  be read ends the packet.
\<close>

fun collect_for ::
  "(pyval \<Rightarrow> pydict) \<Rightarrow> pylib \<Rightarrow> item list \<Rightarrow> bool \<times> pydict list \<times> pyval set \<Rightarrow>
     bool \<times> pydict list \<times> pyval set" where
  "collect_for parse lib [] st = st"
| "collect_for parse lib (Malformed # rest) st = st"
| "collect_for parse lib (Comment comment # rest) (found_new, comments, comment_ids) =
     (if comment_key lib comment \<noteq> [] \<and> PStr (comment_key lib comment) \<notin> comment_ids
      then collect_for parse lib rest
             (True, comments @ [parse (as_dict comment)],
              insert (PStr (comment_key lib comment)) comment_ids)
      else collect_for parse lib rest (found_new, comments, comment_ids))"

text \<open>
  \<^verbatim>\<open>for _ in range(10)\<close> of the round: up to ten waits, ended by the first wait that
  brings nothing.
\<close>

fun collect_waits ::
  "nat \<Rightarrow> 'w browser \<Rightarrow> (pyval \<Rightarrow> pydict) \<Rightarrow> pylib \<Rightarrow> bool \<times> pydict list \<times> pyval set \<Rightarrow> 'w \<Rightarrow>
     (bool \<times> pydict list \<times> pyval set) \<times> 'w" where
  "collect_waits 0 br parse lib st w = (st, w)"
| "collect_waits (Suc k) br parse lib st w =
     (case listen_wait br w of
        (None, w') \<Rightarrow> (st, w')
      | (Some (Packet None), w') \<Rightarrow> collect_waits k br parse lib st w'
      | (Some (Packet (Some items)), w') \<Rightarrow>
          collect_waits k br parse lib (collect_for parse lib items st) w')"

text \<open>
  \<^verbatim>\<open>for _ in range(5)\<close> of the final check: five waits, each of which may bring a
  packet.
\<close>

fun final_waits ::
  "nat \<Rightarrow> 'w browser \<Rightarrow> (pyval \<Rightarrow> pydict) \<Rightarrow> pylib \<Rightarrow> bool \<times> pydict list \<times> pyval set \<Rightarrow> 'w \<Rightarrow>
     (bool \<times> pydict list \<times> pyval set) \<times> 'w" where
  "final_waits 0 br parse lib st w = (st, w)"
| "final_waits (Suc k) br parse lib st w =
     (case listen_wait br w of
        (None, w') \<Rightarrow> final_waits k br parse lib st w'
      | (Some (Packet None), w') \<Rightarrow> final_waits k br parse lib st w'
      | (Some (Packet (Some items)), w') \<Rightarrow>
          final_waits k br parse lib (collect_for parse lib items st) w')"

text \<open>
  The comments of one packet of the verification pass, where the id of a comment is
  \<^verbatim>\<open>comment.get('cid', '')\<close> alone.
\<close>

fun verify_for ::
  "(pyval \<Rightarrow> pydict) \<Rightarrow> item list \<Rightarrow> bool \<times> pydict list \<times> pyval set \<Rightarrow>
     bool \<times> pydict list \<times> pyval set" where
  "verify_for parse [] st = st"
| "verify_for parse (Malformed # rest) st = st"
| "verify_for parse (Comment comment # rest) (verify_found, comments, comment_ids) =
     (if cid comment \<noteq> [] \<and> PStr (cid comment) \<notin> comment_ids
      then verify_for parse rest
             (True, comments @ [parse (as_dict comment)], insert (PStr (cid comment)) comment_ids)
      else verify_for parse rest (verify_found, comments, comment_ids))"

text \<open>\<^verbatim>\<open>for _ in range(5)\<close>: five waits, each of which may bring a packet.\<close>

fun verify_waits ::
  "nat \<Rightarrow> 'w browser \<Rightarrow> (pyval \<Rightarrow> pydict) \<Rightarrow> bool \<times> pydict list \<times> pyval set \<Rightarrow> 'w \<Rightarrow>
     (bool \<times> pydict list \<times> pyval set) \<times> 'w" where
  "verify_waits 0 br parse st w = (st, w)"
| "verify_waits (Suc k) br parse st w =
     (case listen_wait br w of
        (None, w') \<Rightarrow> verify_waits k br parse st w'
      | (Some (Packet None), w') \<Rightarrow> verify_waits k br parse st w'
      | (Some (Packet (Some items)), w') \<Rightarrow>
          verify_waits k br parse (verify_for parse items st) w')"

text \<open>
  The start of a round: the counter, the scroll, and every tenth round the check that
  the page has moved.
\<close>

definition scroll_check :: "'w browser \<Rightarrow> scroll_state \<Rightarrow> 'w \<Rightarrow> scroll_state \<times> 'w" where
  "scroll_check br st w =
     (if scroll_round st mod 10 = 0
      then (let current_pos = get_scroll_position br w
            in if current_pos \<le> last_scroll_pos st + 10
               then (if scroll_failed_count st + 1 \<ge> 2
                     then (st\<lparr>scroll_failed_count := 0, last_scroll_pos := current_pos\<rparr>,
                           sleep br 0.5 (js_scroll br 800 (scroll_down br 800 w)))
                     else (st\<lparr>scroll_failed_count := scroll_failed_count st + 1,
                              last_scroll_pos := current_pos\<rparr>, w))
               else (st\<lparr>scroll_failed_count := 0, last_scroll_pos := current_pos\<rparr>, w))
      else (st, w))"

text \<open>The round up to the end of \<^verbatim>\<open>for _ in range(10)\<close>, with \<open>found_new\<close>.\<close>

definition round_collect ::
  "'w browser \<Rightarrow> (pyval \<Rightarrow> pydict) \<Rightarrow> pylib \<Rightarrow> int \<Rightarrow> scroll_state \<Rightarrow> 'w \<Rightarrow>
     bool \<times> scroll_state \<times> 'w" where
  "round_collect br parse lib expected_count st w =
     (case scroll_check br (st\<lparr>scroll_round := scroll_round st + 1\<rparr>)
             (sleep br 0.15 (js_scroll br (scroll_speed expected_count) w)) of
        (st1, w1) \<Rightarrow>
          (case collect_waits 10 br parse lib (False, sc_comments st1, sc_comment_ids st1) w1 of
             ((found_new, comments, comment_ids), w2) \<Rightarrow>
               (found_new, st1\<lparr>sc_comments := comments, sc_comment_ids := comment_ids\<rparr>, w2)))"

text \<open>
  \<^verbatim>\<open>if found_new: ... else: ...\<close>: the count of the rounds without a new comment
  and, from ten such rounds on, the captcha check. The first component says whether the
  round ends here (\<^verbatim>\<open>continue\<close>).
\<close>

definition captcha_pause ::
  "'w browser \<Rightarrow> bool \<Rightarrow> scroll_state \<Rightarrow> 'w \<Rightarrow> bool \<times> scroll_state \<times> 'w" where
  "captcha_pause br found_new st w =
     (if found_new then (False, st\<lparr>no_new_count := 0\<rparr>, w)
      else if no_new_count st + 1 \<ge> 10
      then (case check_captcha br w of
              (True, w') \<Rightarrow> (True, st\<lparr>no_new_count := 0\<rparr>, handle_captcha br w')
            | (False, w') \<Rightarrow> (False, st\<lparr>no_new_count := no_new_count st + 1\<rparr>, w'))
      else (False, st\<lparr>no_new_count := no_new_count st + 1\<rparr>, w))"

text \<open>The round up to the progress log.\<close>

definition round_to_log ::
  "'w browser \<Rightarrow> (pyval \<Rightarrow> pydict) \<Rightarrow> pylib \<Rightarrow> int \<Rightarrow> scroll_state \<Rightarrow> 'w \<Rightarrow>
     bool \<times> scroll_state \<times> 'w" where
  "round_to_log br parse lib expected_count st w =
     (case round_collect br parse lib expected_count st w of
        (found_new, st1, w1) \<Rightarrow> captcha_pause br found_new st1 w1)"

text \<open>
  The progress log and the verification pass (the block under
  \<^verbatim>\<open>if time_since_log >= 2 or new_since_log >= 20\<close>). The first component of the
  result says whether the scroll loop is left (\<^verbatim>\<open>break\<close>).
\<close>

definition log_and_verify ::
  "'w browser \<Rightarrow> (pyval \<Rightarrow> pydict) \<Rightarrow> int \<Rightarrow> scroll_state \<Rightarrow> 'w \<Rightarrow> (bool \<times> scroll_state) \<times> 'w" where
  "log_and_verify br parse expected_count st w =
     (let current_time = time_now br w;
          new_since_log = int (length (sc_comments st)) - last_log_count st;
          time_since_log = current_time - last_log_time st
      in if time_since_log \<ge> 2 \<or> new_since_log \<ge> 20
         then (let st1 = st\<lparr>last_log_time := current_time,
                             last_log_count := int (length (sc_comments st))\<rparr>
               in if coverage (int (length (sc_comments st))) expected_count \<ge> 100
                  then (case verify_waits 5 br parse (False, sc_comments st, sc_comment_ids st)
                               (sleep br 0.5 (js_scroll br 500 w)) of
                          ((verify_found, comments, comment_ids), w') \<Rightarrow>
                            ((\<not> verify_found,
                              st1\<lparr>sc_comments := comments, sc_comment_ids := comment_ids\<rparr>), w'))
                  else ((False, st1), w))
         else ((False, st), w))"

text \<open>Every tenth round: has the number of comments changed since the last check.\<close>

definition stall_check :: "'w browser \<Rightarrow> scroll_state \<Rightarrow> 'w \<Rightarrow> scroll_state \<times> 'w" where
  "stall_check br st w =
     (if scroll_round st mod 10 = 0
      then (if int (length (sc_comments st)) = last_count st
            then (st\<lparr>stall_rounds := stall_rounds st + 1,
                     last_count := int (length (sc_comments st))\<rparr>,
                  if stall_rounds st + 1 \<ge> 2 then sleep br 0.5 (js_scroll br 1000 w) else w)
            else (st\<lparr>stall_rounds := 0, last_count := int (length (sc_comments st))\<rparr>, w))
      else (st, w))"

text \<open>
  The bottom detection, after \<open>max_no_new_rounds\<close> rounds without a new comment. The
  first component says whether the scroll loop is left.
\<close>

definition bottom_check ::
  "'w browser \<Rightarrow> (pyval \<Rightarrow> pydict) \<Rightarrow> pylib \<Rightarrow> int \<Rightarrow> scroll_state \<Rightarrow> 'w \<Rightarrow>
     bool \<times> scroll_state \<times> 'w" where
  "bottom_check br parse lib expected_count st w =
     (if no_new_count st \<ge> max_no_new_rounds expected_count
      then (if bottom_marker br w then (True, st, w)
            else (case final_waits 5 br parse lib (False, sc_comments st, sc_comment_ids st)
                         (sleep br 0.8 (js_scroll br 2000 w)) of
                    ((final_found, comments, comment_ids), w') \<Rightarrow>
                      if \<not> final_found
                      then (True, st\<lparr>sc_comments := comments, sc_comment_ids := comment_ids\<rparr>, w')
                      else (False, st\<lparr>sc_comments := comments, sc_comment_ids := comment_ids,
                                      no_new_count := 0\<rparr>, w')))
      else (False, st, w))"

text \<open>The round after the progress log.\<close>

definition round_end ::
  "'w browser \<Rightarrow> (pyval \<Rightarrow> pydict) \<Rightarrow> pylib \<Rightarrow> int \<Rightarrow> scroll_state \<Rightarrow> 'w \<Rightarrow>
     (scroll_state, scroll_state) step \<times> 'w" where
  "round_end br parse lib expected_count st w =
     (case stall_check br st w of
        (st1, w1) \<Rightarrow>
          (case bottom_check br parse lib expected_count st1
                  (if scroll_round st1 mod 30 = 0 then try_expand_replies br w1 else w1) of
             (True, st2, w2) \<Rightarrow> (Break st2, w2)
           | (False, st2, w2) \<Rightarrow>
               if stall_rounds st2 \<ge> 6 then (Break st2, w2) else (Continue st2, w2)))"

text \<open>One round of the scroll loop, after the test.\<close>

definition scroll_round_body ::
  "'w browser \<Rightarrow> (pyval \<Rightarrow> pydict) \<Rightarrow> pylib \<Rightarrow> int \<Rightarrow> scroll_state \<Rightarrow> 'w \<Rightarrow>
     (scroll_state, scroll_state) step \<times> 'w" where
  "scroll_round_body br parse lib expected_count st w =
     (case round_to_log br parse lib expected_count st w of
        (True, st1, w1) \<Rightarrow> (Continue st1, w1)
      | (False, st1, w1) \<Rightarrow>
          (case log_and_verify br parse expected_count st1 w1 of
             ((True, st2), w2) \<Rightarrow> (Break st2, w2)
           | ((False, st2), w2) \<Rightarrow> round_end br parse lib expected_count st2 w2))"







section \<open>crawl\_mix\_playwright.py: PlaywrightMixCrawler\<close>

text \<open>
  The end of \<^verbatim>\<open>get_video_comments\<close>: the comments scraped from the page, in
  document order, are turned into rows. A scraped comment has level 1 or 2. The id of a
  row is \<^verbatim>\<open>str(abs(hash(f"{userId}_{content}_{timeText}_{idx}")))\<close>, which is the
  parameter \<open>cid_of\<close>; the columns that are copied unchanged and play no part below
  are left out. \<open>py_take m\<close> is the slice \<^verbatim>\<open>[:m]\<close>.
\<close>

record dom_comment =
  username :: string
  userId :: string
  dom_content :: string
  timeText :: string
  dom_level :: int

record pw_row =
  pw_cid :: string
  pw_text :: string
  pw_user :: string
  pw_user_id :: string
  pw_level :: int
  parent_cid :: string
  parent_user :: string

definition py_take :: "int \<Rightarrow> 'a list \<Rightarrow> 'a list" where
  "py_take m xs = (if m \<ge> 0 then take (nat m) xs else take (nat (int (length xs) + m)) xs)"

fun convert_comments ::
  "(string \<Rightarrow> string \<Rightarrow> string \<Rightarrow> nat \<Rightarrow> string) \<Rightarrow> nat \<Rightarrow> string \<times> string \<Rightarrow>
     dom_comment list \<Rightarrow> pw_row list" where
  "convert_comments cid_of idx parent [] = []"
| "convert_comments cid_of idx parent (c # rest) =
     (let cid = cid_of (userId c) (dom_content c) (timeText c) idx;
          parent' = (if dom_level c = 1 then (cid, username c) else parent)
      in \<lparr>pw_cid = cid, pw_text = dom_content c, pw_user = username c, pw_user_id = userId c,
          pw_level = dom_level c,
          parent_cid = (if dom_level c = 2 then fst parent' else []),
          parent_user = (if dom_level c = 2 then snd parent' else [])\<rparr>
         # convert_comments cid_of (Suc idx) parent' rest)"

definition playwright_comments ::
  "(string \<Rightarrow> string \<Rightarrow> string \<Rightarrow> nat \<Rightarrow> string) \<Rightarrow> int \<Rightarrow> dom_comment list \<Rightarrow> pw_row list" where
  "playwright_comments cid_of maxc raw_comments =
     convert_comments cid_of 0 ([], []) (py_take maxc raw_comments)"

section \<open>Invariants and concrete feeds\<close>

text \<open>The session invariant: the ids of the rows are pairwise different and are the set.\<close>

definition dedup_invariant :: "session \<Rightarrow> bool" where
  "dedup_invariant st \<longleftrightarrow>
     distinct (map comment_id (fst st)) \<and> comment_id ` set (fst st) = snd st"

text \<open>
  Parent linkage: every level-2 row has, among the rows before it, a level-1 row whose
  id is its parent id. \<open>replies_of\<close> describes the rows of one reply sub-fetch.
\<close>

definition parents_before :: "mix_row list \<Rightarrow> bool" where
  "parents_before rows \<longleftrightarrow>
     (\<forall>j<length rows. tier (rows ! j) = 2 \<longrightarrow>
        (\<exists>p\<in>set (take j rows). tier p = 1 \<and> row_id p = PStr (parent_id (rows ! j))))"

text \<open>The rows that \<^verbatim>\<open>get_comment_replies\<close> builds for one parent.\<close>

definition replies_of :: "string \<Rightarrow> mix_row list \<Rightarrow> bool" where
  "replies_of parent rows \<longleftrightarrow> (\<forall>r\<in>set rows. tier r = 2 \<and> parent_id r = parent)"

text \<open>
  The same for the rows of the Playwright crawler, where a level-2 row may come before
  every level-1 row; \<open>current_parent\<close> relates the loop variable \<open>parent_cid\<close> to
  the rows built so far.
\<close>

definition pw_parents_before :: "pw_row list \<Rightarrow> bool" where
  "pw_parents_before rows \<longleftrightarrow>
     (\<forall>j<length rows. pw_level (rows ! j) = 2 \<longrightarrow>
        (if \<exists>p\<in>set (take j rows). pw_level p = 1
         then \<exists>p\<in>set (take j rows). pw_level p = 1 \<and> pw_cid p = parent_cid (rows ! j)
         else parent_cid (rows ! j) = []))"

definition current_parent :: "pw_row list \<Rightarrow> string \<Rightarrow> bool" where
  "current_parent rows pc \<longleftrightarrow>
     (if \<exists>p\<in>set rows. pw_level p = 1
      then \<exists>p\<in>set rows. pw_level p = 1 \<and> pw_cid p = pc
      else pc = [])"

definition sample_cid :: "string \<Rightarrow> string \<Rightarrow> string \<Rightarrow> nat \<Rightarrow> string" where
  "sample_cid u c t idx = u @ ''_'' @ c"

definition orphan_reply :: dom_comment where
  "orphan_reply = \<lparr>username = ''u'', userId = ''1'', dom_content = ''hi'', timeText = ''now'',
                    dom_level = 2\<rparr>"

text \<open>
  Concrete feeds for the examples. The state of the world is the number of API calls
  made so far; the answer depends on the request only.
\<close>

definition counting_api ::
  "(int \<Rightarrow> response) \<Rightarrow> (string \<Rightarrow> int \<Rightarrow> response) \<Rightarrow> nat api" where
  "counting_api roots replies =
     \<lparr>api_fetch_video_comments = (\<lambda>aweme_id c n. (roots c, Suc n)),
      api_fetch_video_comments_reply = (\<lambda>item_id parent c n. (replies parent c, Suc n))\<rparr>"

definition plain_lib :: pylib where
  "plain_lib = \<lparr>strip = (\<lambda>s. s), strftime = (\<lambda>t. None), str_of = (\<lambda>v. [])\<rparr>"

text \<open>A comment dictionary with the two keys \<open>cid\<close> and \<open>reply_comment_total\<close>.\<close>

definition raw :: "string \<Rightarrow> int \<Rightarrow> item" where
  "raw c r = Comment \<lparr>cid = c, reply_comment_total = r, other_keys = []\<rparr>"

text \<open>What the two crawlers make of such a dictionary.\<close>

definition plain_row :: "string \<Rightarrow> int \<Rightarrow> int \<Rightarrow> comment_row" where
  "plain_row c r lvl =
     \<lparr>comment_id = PStr c, row_text = PStr [], user = PStr [], user_id = PStr [],
      digg_count = PInt 0, reply_count = PInt r, create_time = [], ip_label = PStr [],
      level = lvl, reply_to = PStr []\<rparr>"

definition plain_mix_row :: "string \<Rightarrow> int \<Rightarrow> string \<Rightarrow> mix_row" where
  "plain_mix_row c lvl parent =
     \<lparr>video_id = PStr [], tier = lvl, row_id = PStr c, parent_id = parent, content = PStr [],
      commenter = PStr [], likes = PInt 0, time_text = []\<rparr>"

text \<open>Two pages of root comments that overlap in \<open>b\<close>.\<close>

definition overlapping_roots :: "int \<Rightarrow> response" where
  "overlapping_roots c =
     (if c = 0
      then Returns (Some \<lparr>page_comments = [raw ''a'' 0, raw ''b'' 0], has_more = 1, cursor = 20\<rparr>)
      else if c = 20
      then Returns (Some \<lparr>page_comments = [raw ''b'' 0, raw ''c'' 0], has_more = 0, cursor = 40\<rparr>)
      else Returns None)"

definition no_replies :: "string \<Rightarrow> int \<Rightarrow> response" where
  "no_replies parent c = Returns None"

text \<open>One root comment that reports one reply, while the API has three replies for it.\<close>

definition root_with_replies :: "int \<Rightarrow> response" where
  "root_with_replies c =
     (if c = 0 then Returns (Some \<lparr>page_comments = [raw ''a'' 1], has_more = 0, cursor = 0\<rparr>)
      else Returns None)"

definition three_replies :: "string \<Rightarrow> int \<Rightarrow> response" where
  "three_replies parent c =
     (if parent = ''a'' \<and> c = 0
      then Returns (Some \<lparr>page_comments = [raw ''r1'' 0, raw ''r2'' 0, raw ''r3'' 0],
                           has_more = 0, cursor = 0\<rparr>)
      else Returns None)"

text \<open>
  A feed whose cursor is stuck: every page says there is more and gives the cursor 7.
\<close>

definition stuck_roots :: "int \<Rightarrow> response" where
  "stuck_roots c =
     Returns (Some \<lparr>page_comments = [raw (if c = 0 then ''a'' else ''b'') 0],
                     has_more = 1, cursor = 7\<rparr>)"

definition stuck_replies :: "string \<Rightarrow> int \<Rightarrow> response" where
  "stuck_replies parent c =
     Returns (Some \<lparr>page_comments = [raw (if c = 0 then ''r1'' else ''r2'') 0],
                     has_more = 1, cursor = 7\<rparr>)"








text \<open>Scraped comments: a reply with no root before it, and a root with a reply.\<close>

definition root_then_reply :: "dom_comment list" where
  "root_then_reply =
     [\<lparr>username = ''u'', userId = ''1'', dom_content = ''hi'', timeText = ''now'', dom_level = 1\<rparr>,
      \<lparr>username = ''w'', userId = ''2'', dom_content = ''yo'', timeText = ''now'', dom_level = 2\<rparr>]"

text \<open>A predicate for the proofs about the Drission crawler: every row has level 1.\<close>

definition all_level1 :: "pydict list \<Rightarrow> bool" where
  "all_level1 rows \<longleftrightarrow> (\<forall>r\<in>set rows. map_of r ''level'' = Some (PInt 1))"

text \<open>
  A world that counts the calls of the API and the runs of the browser strategy; an API
  whose first page is empty, and a browser strategy that finds one comment, or none.
\<close>

definition empty_api :: "(nat \<times> nat) api" where
  "empty_api =
     \<lparr>api_fetch_video_comments = (\<lambda>aweme_id c w. (Returns None, (Suc (fst w), snd w))),
      api_fetch_video_comments_reply = (\<lambda>item_id parent c w. (Returns None, (Suc (fst w), snd w)))\<rparr>"

definition one_page_api :: "(nat \<times> nat) api" where
  "one_page_api =
     \<lparr>api_fetch_video_comments = (\<lambda>aweme_id c w.
        (Returns (Some \<lparr>page_comments = [raw ''a'' 3], has_more = 0, cursor = 0\<rparr>),
         (Suc (fst w), snd w))),
      api_fetch_video_comments_reply = (\<lambda>item_id parent c w. (Returns None, (Suc (fst w), snd w)))\<rparr>"

definition browser_finds ::
  "pydict list \<Rightarrow> string \<Rightarrow> int \<Rightarrow> nat \<times> nat \<Rightarrow> (exn + pydict list option) \<times> (nat \<times> nat)" where
  "browser_finds rows aweme_id expected_count w = (Inr (Some rows), (fst w, Suc (snd w)))"

definition parse_cid :: "pyval \<Rightarrow> pydict" where
  "parse_cid comment =
     (case py_get comment ''cid'' (PStr []) of Inr v \<Rightarrow> [(''cid'', v)] | Inl e \<Rightarrow> [])"




text \<open>A comment dictionary that has the key \<open>id\<close> and no key \<open>cid\<close>.\<close>

definition id_only :: raw_comment where
  "id_only = \<lparr>cid = [], reply_comment_total = 0, other_keys = [(''id'', PStr ''5'')]\<rparr>"

section \<open>Properties of parsing\<close>

lemma returns_andthen:
  "(\<And>v. m = Inr v \<Longrightarrow> returns P (f v)) \<Longrightarrow> returns P (andthen m f)"
  by (cases m) (simp_all add: andthen_def returns_def)

lemma returns_Inr: "P v \<Longrightarrow> returns P (Inr v)"
  by (simp add: returns_def)

lemma catchable_andthen:
  "catchable m \<Longrightarrow> (\<And>v. catchable (f v)) \<Longrightarrow> catchable (andthen m f)"
  by (cases m) (simp_all add: andthen_def catchable_def)

lemma catchable_Inr: "catchable (Inr v)"
  by (simp add: catchable_def)

lemma catchable_if: "catchable a \<Longrightarrow> catchable b \<Longrightarrow> catchable (if c then a else b)"
  by simp

lemma catchable_py_get: "catchable (py_get c k d)"
  by (cases c) (simp_all add: catchable_def)

lemma catchable_py_gt: "catchable (py_gt v n)"
  by (cases v) (simp_all add: catchable_def)

lemma catchable_py_floordiv: "catchable (py_floordiv v n)"
  by (cases v) (simp_all add: catchable_def)

lemma catchable_py_strip: "catchable (py_strip lib v)"
  by (cases v) (simp_all add: catchable_def)

lemmas catchable_intros =
  catchable_andthen catchable_Inr catchable_if catchable_py_get catchable_py_gt
  catchable_py_floordiv catchable_py_strip

lemma parse_comment_try_returns:
  "returns (\<lambda>row. level row = lvl \<and> py_get comment ''cid'' (PStr []) = Inr (comment_id row))
     (parse_comment_try lib comment lvl)"
  unfolding parse_comment_try_def Let_def
  by (intro returns_andthen returns_Inr) simp

lemma parse_comment_try_Inr:
  assumes "parse_comment_try lib comment lvl = Inr row"
  shows "level row = lvl \<and> py_get comment ''cid'' (PStr []) = Inr (comment_id row)"
  using parse_comment_try_returns [of lvl comment lib] assms by (simp add: returns_def)

lemma parse_comment_try_catchable: "catchable (parse_comment_try lib comment lvl)"
  unfolding parse_comment_try_def Let_def
  by (intro catchable_intros)

lemma parse_comment_try_Inl:
  assumes "parse_comment_try lib comment lvl = Inl e"
  shows "is_Exception e"
  using parse_comment_try_catchable [of lib comment lvl] assms by (simp add: catchable_def)

lemma parse_comment_except_dict:
  "parse_comment_except (PDict kvs) lvl =
     Inr \<lparr>comment_id = (case map_of kvs ''cid'' of None \<Rightarrow> PStr [] | Some v \<Rightarrow> v),
          row_text = (case map_of kvs ''text'' of None \<Rightarrow> PStr [] | Some v \<Rightarrow> v),
          user = PStr [], user_id = PStr [], digg_count = PInt 0, reply_count = PInt 0,
          create_time = [], ip_label = PStr [], level = lvl, reply_to = PStr []\<rparr>"
  by (simp add: parse_comment_except_def andthen_def)

lemma parse_comment_dict:
  "\<exists>row. parse_comment lib (PDict kvs) lvl = Inr row \<and> level row = lvl \<and>
         comment_id row = (case map_of kvs ''cid'' of None \<Rightarrow> PStr [] | Some v \<Rightarrow> v)"
proof (cases "parse_comment_try lib (PDict kvs) lvl")
  case (Inl e)
  then have "is_Exception e" by (rule parse_comment_try_Inl)
  with Inl show ?thesis
    by (simp add: parse_comment_def parse_comment_except_dict)
next
  case (Inr row)
  from parse_comment_try_Inr [OF Inr] Inr show ?thesis
    by (simp add: parse_comment_def)
qed

text \<open>
  Two runs: a comment whose text is \<open>None\<close> makes \<^verbatim>\<open>.strip()\<close> raise, and the
  \<^verbatim>\<open>except\<close> block returns the row; on something that is not a dictionary the
  \<^verbatim>\<open>except\<close> block raises too.
\<close>

lemma parse_comment_text_is_None:
  "parse_comment lib (PDict [(''cid'', PStr ''x''), (''text'', PNone)]) 2 =
     Inr \<lparr>comment_id = PStr ''x'', row_text = PNone, user = PStr [], user_id = PStr [],
          digg_count = PInt 0, reply_count = PInt 0, create_time = [], ip_label = PStr [],
          level = 2, reply_to = PStr []\<rparr>"
  by (simp add: parse_comment_def parse_comment_try_def parse_comment_except_def andthen_def)

lemma parse_comment_not_a_dict: "parse_comment lib PNone lvl = Inl AttributeError"
  by (simp add: parse_comment_def parse_comment_try_def parse_comment_except_def andthen_def)

text \<open>
  Claim C10. Parsing is total on dictionaries: whatever the dictionary holds (missing
  keys, \<open>None\<close>, values of the wrong type), \<open>parse_comment\<close> returns a row and raises
  nothing, and the row's level is the level the caller passed.
\<close>

theorem parse_comment_total:
  "\<exists>row. parse_comment lib (PDict kvs) lvl = Inr row \<and> level row = lvl"
  using parse_comment_dict [of lib kvs lvl] by blast

section \<open>Evaluating the crawlers on the concrete feeds\<close>

lemma parse_comment_as_dict:
  "\<exists>row. parse_comment lib (as_dict c) lvl = Inr row \<and> level row = lvl \<and> comment_id row = PStr (cid c)"
proof -
  let ?kvs = "(''cid'', PStr (cid c)) # (''reply_comment_total'', PInt (reply_comment_total c)) # other_keys c"
  from parse_comment_dict [of lib ?kvs lvl] show ?thesis
    by (simp add: as_dict_def)
qed

lemma parse_comment_raw [simp]:
  "parse_comment plain_lib (as_dict \<lparr>cid = c, reply_comment_total = r, other_keys = []\<rparr>) lvl =
     Inr (plain_row c r lvl)"
  by (simp add: parse_comment_def parse_comment_try_def andthen_def as_dict_def
        plain_lib_def plain_row_def)

lemma format_comment_row_raw [simp]:
  "format_comment_row plain_lib
     (as_dict \<lparr>cid = c, reply_comment_total = r, other_keys = []\<rparr>) lvl parent =
     Inr (plain_mix_row c lvl parent)"
  by (simp add: format_comment_row_def andthen_def as_dict_def plain_lib_def plain_mix_row_def)

lemma plain_row_sel [simp]:
  "comment_id (plain_row c r lvl) = PStr c" "level (plain_row c r lvl) = lvl"
  by (simp_all add: plain_row_def)

lemma plain_mix_row_sel [simp]:
  "row_id (plain_mix_row c lvl parent) = PStr c" "tier (plain_mix_row c lvl parent) = lvl"
  "parent_id (plain_mix_row c lvl parent) = parent"
  by (simp_all add: plain_mix_row_def)

lemmas eval_api =
  comments_iteration_def reply_iteration_def attach_replies_def fetch_comment_replies_def
  fetch_video_comments_def counting_api_def raw_def numeral_eq_Suc

lemmas eval_mix =
  mix_comments_iteration_def mix_reply_iteration_def get_comment_replies_def
  get_all_comments_def counting_api_def raw_def numeral_eq_Suc

section \<open>No duplicate ids (DouyinAPICrawler)\<close>

lemma dedup_invariant_append:
  "dedup_invariant (cs, ids) \<Longrightarrow> comment_id r \<notin> ids \<Longrightarrow>
   dedup_invariant (cs @ [r], insert (comment_id r) ids)"
  by (auto simp: dedup_invariant_def)

lemma add_replies_invariant:
  "dedup_invariant st \<Longrightarrow> dedup_invariant (add_replies rs st)"
proof (induction rs arbitrary: st)
  case Nil
  then show ?case by simp
next
  case (Cons r rs)
  obtain cs ids where st: "st = (cs, ids)" by (cases st)
  show ?case using Cons.prems unfolding st
    by (auto intro!: Cons.IH dedup_invariant_append)
qed

lemma attach_replies_invariant:
  assumes "dedup_invariant st"
    and "attach_replies fuel cfg api lib aweme_id c st s = Some ((st', out), s')"
  shows "dedup_invariant st'"
  using assms
  by (auto simp: attach_replies_def add_replies_invariant split: if_splits option.splits sum.splits prod.splits)

lemma comments_for_invariant:
  assumes "dedup_invariant st"
    and "comments_for fuel cfg api lib aweme_id items st s = Some ((st', out), s')"
  shows "dedup_invariant st'"
  using assms
proof (induction items arbitrary: st s)
  case Nil
  then show ?case by simp
next
  case (Cons it items)
  obtain cs ids where st: "st = (cs, ids)" by (cases st)
  show ?case
  proof (cases it)
    case Malformed
    with Cons.prems show ?thesis by simp
  next
    case (Comment c)
    show ?thesis
    proof (cases "cid c = [] \<or> PStr (cid c) \<in> ids")
      case True
      with Cons.prems Comment st show ?thesis
        using Cons.IH [of st s] by auto
    next
      case False
      obtain row where row: "parse_comment lib (as_dict c) 1 = Inr row"
        and rid: "comment_id row = PStr (cid c)"
        using parse_comment_as_dict [of lib c 1] by auto
      have inv1: "dedup_invariant (cs @ [row], insert (PStr (cid c)) ids)"
        using dedup_invariant_append [of cs ids row] Cons.prems(1) False rid st by simp
      from Cons.prems(2) False row Comment st
      obtain st1 out1 s1 where
        att: "attach_replies fuel cfg api lib aweme_id c (cs @ [row], insert (PStr (cid c)) ids) s = Some ((st1, out1), s1)"
        by (auto split: option.splits)
      have inv2: "dedup_invariant st1"
        using attach_replies_invariant [OF inv1 att] .
      show ?thesis
      proof (cases out1)
        case (Some e)
        with Cons.prems(2) False row Comment st att inv2 show ?thesis by auto
      next
        case None
        with Cons.prems(2) False row Comment st att inv2 Cons.IH [of st1 s1]
        show ?thesis by (auto split: if_splits)
      qed
    qed
  qed
qed

lemma comments_iteration_Break_invariant:
  assumes "dedup_invariant (snd cst)"
    and "comments_iteration fuel cfg api lib aweme_id cst s = Some (Break (Inr st'), s')"
  shows "dedup_invariant st'"
  using assms unfolding comments_iteration_def
  by (auto split: prod.splits response.splits option.splits if_splits
           dest: comments_for_invariant)

lemma comments_iteration_Continue_invariant:
  assumes "dedup_invariant (snd cst)"
    and "comments_iteration fuel cfg api lib aweme_id cst s = Some (Continue cst', s')"
  shows "dedup_invariant (snd cst')"
  using assms unfolding comments_iteration_def
  by (auto split: prod.splits response.splits option.splits if_splits
           dest: comments_for_invariant)

lemma fetch_video_comments_loop_invariant:
  assumes "dedup_invariant (snd cst)"
    and "fetch_video_comments_loop fuel cfg api lib aweme_id cst s = Some (Inr st', s')"
  shows "dedup_invariant st'"
  using assms
proof (induction fuel arbitrary: cst s)
  case 0
  then show ?case by simp
next
  case (Suc n)
  show ?case
  proof (cases "int (length (fst (snd cst))) < max_comments cfg")
    case False
    with Suc.prems show ?thesis by auto
  next
    case True
    show ?thesis
    proof (cases "comments_iteration n cfg api lib aweme_id cst s")
      case None
      with Suc.prems True show ?thesis by simp
    next
      case (Some a)
      obtain ctl s1 where a: "a = (ctl, s1)" by (cases a)
      show ?thesis
      proof (cases ctl)
        case (Break r)
        with Suc.prems True Some a have "r = Inr st'" "s1 = s'" by auto
        with Some a Break
        have "comments_iteration n cfg api lib aweme_id cst s = Some (Break (Inr st'), s')" by simp
        with Suc.prems(1) show ?thesis by (rule comments_iteration_Break_invariant)
      next
        case (Continue cst')
        with Some a
        have "comments_iteration n cfg api lib aweme_id cst s = Some (Continue cst', s1)" by simp
        with Suc.prems(1) have "dedup_invariant (snd cst')"
          by (rule comments_iteration_Continue_invariant)
        moreover from Suc.prems True Some a Continue
        have "fetch_video_comments_loop n cfg api lib aweme_id cst' s1 = Some (Inr st', s')" by simp
        ultimately show ?thesis by (rule Suc.IH)
      qed
    qed
  qed
qed

text \<open>
  Claim C1, for \<^verbatim>\<open>DouyinAPICrawler.fetch_video_comments\<close>. Whatever the API delivers
  and however often it delivers an id again, a harvest that returns has no two rows with
  the same id: the number of rows is the number of distinct ids and the size of
  \<open>comment_ids\<close>. This holds for roots and replies alike.
\<close>

theorem fetch_video_comments_no_duplicates:
  assumes "fetch_video_comments_loop fuel cfg api lib aweme_id (0, ([], {})) s =
             Some (Inr (comments, comment_ids), s')"
  shows "distinct (map comment_id comments) \<and>
         length comments = card (comment_id ` set comments) \<and>
         length comments = card comment_ids"
proof -
  have "dedup_invariant (snd (0::int, ([]::comment_row list, {}::pyval set)))"
    by (simp add: dedup_invariant_def)
  from fetch_video_comments_loop_invariant [OF this assms]
  have d: "distinct (map comment_id comments)" and e: "comment_id ` set comments = comment_ids"
    by (simp_all add: dedup_invariant_def)
  from d have "card (set (map comment_id comments)) = length comments"
    using distinct_card [of "map comment_id comments"] by simp
  with d e show ?thesis by simp
qed


theorem fetch_video_comments_no_duplicates_witness:
  "fetch_video_comments_loop 5 \<lparr>max_comments = 10, fetch_replies = True\<rparr>
     (counting_api overlapping_roots no_replies) plain_lib ''v'' (0, ([], {})) 0 =
     Some (Inr ([plain_row ''a'' 0 1, plain_row ''b'' 0 1, plain_row ''c'' 0 1],
                {PStr ''a'', PStr ''b'', PStr ''c''}), 2) \<and>
   distinct (map comment_id [plain_row ''a'' 0 1, plain_row ''b'' 0 1, plain_row ''c'' 0 1]) \<and>
   length [plain_row ''a'' 0 1, plain_row ''b'' 0 1, plain_row ''c'' 0 1] =
     card {PStr ''a'', PStr ''b'', PStr ''c''}"
proof -
  have run: "fetch_video_comments_loop 5 \<lparr>max_comments = 10, fetch_replies = True\<rparr>
     (counting_api overlapping_roots no_replies) plain_lib ''v'' (0, ([], {})) 0 =
     Some (Inr ([plain_row ''a'' 0 1, plain_row ''b'' 0 1, plain_row ''c'' 0 1],
                {PStr ''a'', PStr ''b'', PStr ''c''}), 2)"
    by (simp add: eval_api overlapping_roots_def plain_row_def insert_commute)
  from fetch_video_comments_no_duplicates [OF run] run show ?thesis by blast
qed

text \<open>
  \<^verbatim>\<open>MixCrawler.get_all_comments\<close> keeps no set of seen ids: on the two overlapping
  pages it returns \<open>b\<close> twice.
\<close>

theorem get_all_comments_duplicates:
  "get_all_comments 5 10 (counting_api overlapping_roots no_replies) plain_lib ''v'' 0 =
     Some (Inr [plain_mix_row ''a'' 1 [], plain_mix_row ''b'' 1 [],
                plain_mix_row ''b'' 1 [], plain_mix_row ''c'' 1 []], 2) \<and>
   \<not> distinct (map row_id [plain_mix_row ''a'' 1 [], plain_mix_row ''b'' 1 [],
                           plain_mix_row ''b'' 1 [], plain_mix_row ''c'' 1 []])"
  by (simp add: eval_mix overlapping_roots_def plain_mix_row_def)

section \<open>Bounds on the number of rows\<close>

lemma replies_for_bound:
  assumes "int (length (fst st)) < m" and "replies_for lib m items st = (st', out)"
  shows "int (length (fst st')) \<le> m"
  using assms
proof (induction items arbitrary: st)
  case Nil
  then show ?case by simp
next
  case (Cons it items)
  obtain rs ids where st: "st = (rs, ids)" by (cases st)
  show ?case
  proof (cases it)
    case Malformed
    with Cons.prems show ?thesis by simp
  next
    case (Comment c)
    with Cons.prems st show ?thesis
      using Cons.IH [of "(rs, ids)"]
            Cons.IH [of "(rs @ [r], insert (PStr (cid c)) ids)" for r]
      by (auto split: if_splits sum.splits)
  qed
qed

lemma reply_iteration_Break_bound:
  assumes "int (length (fst (snd cst))) < m"
    and "reply_iteration api lib a parent m cst s = (Break (Inr st'), s')"
  shows "int (length (fst st')) \<le> m"
  using assms unfolding reply_iteration_def
  by (auto split: prod.splits response.splits option.splits if_splits dest: replies_for_bound)

lemma reply_iteration_Continue_bound:
  assumes "int (length (fst (snd cst))) < m"
    and "reply_iteration api lib a parent m cst s = (Continue cst', s')"
  shows "int (length (fst (snd cst'))) \<le> m"
  using assms unfolding reply_iteration_def
  by (auto split: prod.splits response.splits option.splits if_splits dest: replies_for_bound)

lemma fetch_comment_replies_loop_bound:
  assumes "int (length (fst (snd cst))) \<le> max 0 m"
    and "fetch_comment_replies_loop fuel api lib a parent m cst s = Some (Inr st', s')"
  shows "int (length (fst st')) \<le> max 0 m"
  using assms
proof (induction fuel arbitrary: cst s)
  case 0
  then show ?case by simp
next
  case (Suc n)
  show ?case
  proof (cases "int (length (fst (snd cst))) < m")
    case False
    with Suc.prems show ?thesis by auto
  next
    case True
    obtain ctl s1 where it: "reply_iteration api lib a parent m cst s = (ctl, s1)"
      by (cases "reply_iteration api lib a parent m cst s")
    show ?thesis
    proof (cases ctl)
      case (Break r)
      with Suc.prems(2) True it have "r = Inr st'" "s1 = s'" by auto
      with it Break have "reply_iteration api lib a parent m cst s = (Break (Inr st'), s')" by simp
      from reply_iteration_Break_bound [OF True this] show ?thesis by simp
    next
      case (Continue cst')
      with it have "reply_iteration api lib a parent m cst s = (Continue cst', s1)" by simp
      from reply_iteration_Continue_bound [OF True this]
      have "int (length (fst (snd cst'))) \<le> max 0 m" by simp
      moreover from Suc.prems(2) True it Continue
      have "fetch_comment_replies_loop n api lib a parent m cst' s1 = Some (Inr st', s')" by simp
      ultimately show ?thesis by (rule Suc.IH)
    qed
  qed
qed

lemma fetch_comment_replies_bound:
  assumes "fetch_comment_replies fuel api lib a parent r s = Some (Inr replies, s')"
  shows "int (length replies) \<le> max 0 (min r 100)"
proof -
  from assms obtain st where
    run: "fetch_comment_replies_loop fuel api lib a parent (min r 100) (0, ([], {})) s = Some (Inr st, s')"
    and rep: "replies = fst st"
    by (auto simp: fetch_comment_replies_def split: option.splits sum.splits prod.splits)
  have "int (length (fst (snd (0::int, ([]::comment_row list, {}::pyval set))))) \<le> max 0 (min r 100)"
    by simp
  from fetch_comment_replies_loop_bound [OF this run] rep show ?thesis by simp
qed

lemma mix_replies_for_bound:
  assumes "int (length rs) < m" and "mix_replies_for lib parent m items rs = (rs', out)"
  shows "int (length rs') \<le> m"
  using assms
proof (induction items arbitrary: rs)
  case Nil
  then show ?case by simp
next
  case (Cons it items)
  show ?case
  proof (cases it)
    case Malformed
    with Cons.prems show ?thesis by simp
  next
    case (Comment c)
    with Cons.prems show ?thesis
      using Cons.IH [of "rs @ [r]" for r]
      by (auto split: if_splits sum.splits)
  qed
qed

lemma mix_reply_iteration_Break_bound:
  assumes "int (length (snd cst)) < m"
    and "mix_reply_iteration api lib a parent m cst s = (Break (Inr rs'), s')"
  shows "int (length rs') \<le> m"
  using assms unfolding mix_reply_iteration_def
  by (auto split: prod.splits response.splits option.splits if_splits dest: mix_replies_for_bound)

lemma mix_reply_iteration_Continue_bound:
  assumes "int (length (snd cst)) < m"
    and "mix_reply_iteration api lib a parent m cst s = (Continue cst', s')"
  shows "int (length (snd cst')) \<le> m"
  using assms unfolding mix_reply_iteration_def
  by (auto split: prod.splits response.splits option.splits if_splits dest: mix_replies_for_bound)

lemma get_comment_replies_loop_bound:
  assumes "int (length (snd cst)) \<le> max 0 m"
    and "get_comment_replies_loop fuel api lib a parent m cst s = Some (Inr rs', s')"
  shows "int (length rs') \<le> max 0 m"
  using assms
proof (induction fuel arbitrary: cst s)
  case 0
  then show ?case by simp
next
  case (Suc n)
  show ?case
  proof (cases "int (length (snd cst)) < m")
    case False
    with Suc.prems show ?thesis by auto
  next
    case True
    obtain ctl s1 where it: "mix_reply_iteration api lib a parent m cst s = (ctl, s1)"
      by (cases "mix_reply_iteration api lib a parent m cst s")
    show ?thesis
    proof (cases ctl)
      case (Break r)
      with Suc.prems(2) True it have "r = Inr rs'" "s1 = s'" by auto
      with it Break have "mix_reply_iteration api lib a parent m cst s = (Break (Inr rs'), s')" by simp
      from mix_reply_iteration_Break_bound [OF True this] show ?thesis by simp
    next
      case (Continue cst')
      with it have "mix_reply_iteration api lib a parent m cst s = (Continue cst', s1)" by simp
      from mix_reply_iteration_Continue_bound [OF True this]
      have "int (length (snd cst')) \<le> max 0 m" by simp
      moreover from Suc.prems(2) True it Continue
      have "get_comment_replies_loop n api lib a parent m cst' s1 = Some (Inr rs', s')" by simp
      ultimately show ?thesis by (rule Suc.IH)
    qed
  qed
qed

lemma get_comment_replies_bound:
  assumes "get_comment_replies fuel api lib a parent m s = Some (Inr rows, s')"
  shows "int (length rows) \<le> max 0 m"
proof -
  have "int (length (snd (0::int, []::mix_row list))) \<le> max 0 m" by simp
  from get_comment_replies_loop_bound [OF this] assms show ?thesis
    by (simp add: get_comment_replies_def)
qed

text \<open>
  Claim C4. In \<^verbatim>\<open>DouyinAPICrawler\<close> the sub-fetch for a root that reports \<open>r\<close>
  replies returns at most \<open>min r 100\<close> rows (no row at all when \<open>r\<close> is not positive),
  whatever the API would supply. In \<^verbatim>\<open>MixCrawler\<close> the sub-fetch does not look at
  the reported count: its bound is \<open>max_needed\<close>, which the caller sets to the room left
  under \<open>max_comments\<close>.
\<close>

theorem reply_fetch_bounds:
  "(fetch_comment_replies fuel api lib aweme_id parent r s = Some (Inr replies, s') \<longrightarrow>
      int (length replies) \<le> max 0 (min r 100)) \<and>
   (get_comment_replies fuel' api lib aweme_id parent max_needed s = Some (Inr rows, s'') \<longrightarrow>
      int (length rows) \<le> max 0 max_needed)"
proof (intro conjI impI)
  assume "fetch_comment_replies fuel api lib aweme_id parent r s = Some (Inr replies, s')"
  then show "int (length replies) \<le> max 0 (min r 100)" by (rule fetch_comment_replies_bound)
next
  assume "get_comment_replies fuel' api lib aweme_id parent max_needed s = Some (Inr rows, s'')"
  then show "int (length rows) \<le> max 0 max_needed" by (rule get_comment_replies_bound)
qed

theorem reply_fetch_bounds_witness:
  "fetch_comment_replies 5 (counting_api root_with_replies three_replies) plain_lib ''v'' ''a'' 1 0 =
     Some (Inr [plain_row ''r1'' 0 2], 1) \<and>
   int (length [plain_row ''r1'' 0 2]) \<le> max 0 (min 1 100) \<and>
   get_comment_replies 5 (counting_api root_with_replies three_replies) plain_lib ''v'' ''a'' 2 0 =
     Some (Inr [plain_mix_row ''r1'' 2 ''a'', plain_mix_row ''r2'' 2 ''a''], 1) \<and>
   int (length [plain_mix_row ''r1'' 2 ''a'', plain_mix_row ''r2'' 2 ''a'']) \<le> max 0 2"
proof -
  have api: "fetch_comment_replies 5 (counting_api root_with_replies three_replies) plain_lib
               ''v'' ''a'' 1 0 = Some (Inr [plain_row ''r1'' 0 2], 1)"
    by (simp add: eval_api three_replies_def)
  have mix: "get_comment_replies 5 (counting_api root_with_replies three_replies) plain_lib
               ''v'' ''a'' 2 0 =
             Some (Inr [plain_mix_row ''r1'' 2 ''a'', plain_mix_row ''r2'' 2 ''a''], 1)"
    by (simp add: eval_mix three_replies_def)
  from reply_fetch_bounds [of 5 "counting_api root_with_replies three_replies" plain_lib
         "''v''" "''a''" 1 0 "[plain_row ''r1'' 0 2]" 1 5 2
         "[plain_mix_row ''r1'' 2 ''a'', plain_mix_row ''r2'' 2 ''a'']" 1] api mix
  show ?thesis by blast
qed

text \<open>
  In \<^verbatim>\<open>MixCrawler\<close> the root \<open>a\<close> reports one reply and gets the three that the API
  supplies: more than \<open>min 1 100\<close>.
\<close>

theorem get_comment_replies_ignores_reply_count:
  "get_comment_replies 5 (counting_api root_with_replies three_replies) plain_lib ''v'' ''a''
     (10 - 1) 0 =
     Some (Inr [plain_mix_row ''r1'' 2 ''a'', plain_mix_row ''r2'' 2 ''a'',
                plain_mix_row ''r3'' 2 ''a''], 1) \<and>
   get_all_comments 5 10 (counting_api root_with_replies three_replies) plain_lib ''v'' 0 =
     Some (Inr [plain_mix_row ''a'' 1 [], plain_mix_row ''r1'' 2 ''a'',
                plain_mix_row ''r2'' 2 ''a'', plain_mix_row ''r3'' 2 ''a''], 2) \<and>
   \<not> int (length [plain_mix_row ''r1'' 2 ''a'', plain_mix_row ''r2'' 2 ''a'',
                   plain_mix_row ''r3'' 2 ''a'']) \<le> min 1 100"
  by (simp add: eval_mix root_with_replies_def three_replies_def)

section \<open>The cap on the number of comments\<close>

text \<open>
  \<^verbatim>\<open>MixCrawler.get_all_comments\<close> passes the room that is left to the reply
  sub-fetch, and so stays within a non-negative \<open>max_comments\<close>.
\<close>

lemma mix_comments_for_bound:
  assumes "int (length collected) < maxc"
    and "mix_comments_for fuel maxc api lib a items collected s = Some ((collected', out), s')"
  shows "int (length collected') \<le> maxc"
  using assms
proof (induction items arbitrary: collected s)
  case Nil
  then show ?case by simp
next
  case (Cons it items)
  show ?case
  proof (cases it)
    case Malformed
    with Cons.prems show ?thesis by simp
  next
    case (Comment c)
    show ?thesis
    proof (cases "format_comment_row lib (as_dict c) 1 []")
      case (Inl e)
      with Cons.prems Comment show ?thesis by simp
    next
      case (Inr row)
      show ?thesis
      proof (cases "reply_comment_total c > 0 \<and> int (length (collected @ [row])) < maxc")
        case False
        with Cons.prems Comment Inr show ?thesis
          using Cons.IH [of "collected @ [row]" s]
          by (auto split: if_splits)
      next
        case True
        show ?thesis
        proof (cases "get_comment_replies fuel api lib a (cid c) (maxc - int (length (collected @ [row]))) s")
          case None
          with Cons.prems Comment Inr True show ?thesis by simp
        next
          case (Some res)
          obtain r s1 where res: "res = (r, s1)" by (cases res)
          show ?thesis
          proof (cases r)
            case (Inl e)
            with Cons.prems Comment Inr True Some res show ?thesis by auto
          next
            case (Inr replies)
            with Some res
            have "get_comment_replies fuel api lib a (cid c)
                    (maxc - int (length (collected @ [row]))) s = Some (Inr replies, s1)" by simp
            then have "int (length replies) \<le> max 0 (maxc - int (length (collected @ [row])))"
              by (rule get_comment_replies_bound)
            with True have le: "int (length (collected @ [row] @ replies)) \<le> maxc" by simp
            from Cons.prems(2) Comment \<open>format_comment_row lib (as_dict c) 1 [] = Inr row\<close> True Some res Inr le
            show ?thesis
              using Cons.IH [of "collected @ [row] @ replies" s1]
              by (auto split: if_splits)
          qed
        qed
      qed
    qed
  qed
qed

lemma mix_comments_iteration_Break_bound:
  assumes "int (length (snd cst)) < maxc"
    and "mix_comments_iteration fuel maxc api lib a cst s = Some (Break (Inr rows), s')"
  shows "int (length rows) \<le> maxc"
  using assms unfolding mix_comments_iteration_def
  by (auto split: prod.splits response.splits option.splits if_splits dest: mix_comments_for_bound)

lemma mix_comments_iteration_Continue_bound:
  assumes "int (length (snd cst)) < maxc"
    and "mix_comments_iteration fuel maxc api lib a cst s = Some (Continue cst', s')"
  shows "int (length (snd cst')) \<le> maxc"
  using assms unfolding mix_comments_iteration_def
  by (auto split: prod.splits response.splits option.splits if_splits dest: mix_comments_for_bound)

lemma get_all_comments_loop_bound:
  assumes "int (length (snd cst)) \<le> max 0 maxc"
    and "get_all_comments_loop fuel maxc api lib a cst s = Some (Inr rows, s')"
  shows "int (length rows) \<le> max 0 maxc"
  using assms
proof (induction fuel arbitrary: cst s)
  case 0
  then show ?case by simp
next
  case (Suc n)
  show ?case
  proof (cases "int (length (snd cst)) < maxc")
    case False
    with Suc.prems show ?thesis by auto
  next
    case True
    show ?thesis
    proof (cases "mix_comments_iteration n maxc api lib a cst s")
      case None
      with Suc.prems True show ?thesis by simp
    next
      case (Some res)
      obtain ctl s1 where res: "res = (ctl, s1)" by (cases res)
      show ?thesis
      proof (cases ctl)
        case (Break r)
        with Suc.prems(2) True Some res have "r = Inr rows" "s1 = s'" by auto
        with Some res Break
        have "mix_comments_iteration n maxc api lib a cst s = Some (Break (Inr rows), s')" by simp
        from mix_comments_iteration_Break_bound [OF True this] show ?thesis by simp
      next
        case (Continue cst')
        with Some res
        have "mix_comments_iteration n maxc api lib a cst s = Some (Continue cst', s1)" by simp
        from mix_comments_iteration_Continue_bound [OF True this]
        have "int (length (snd cst')) \<le> max 0 maxc" by simp
        moreover from Suc.prems(2) True Some res Continue
        have "get_all_comments_loop n maxc api lib a cst' s1 = Some (Inr rows, s')" by simp
        ultimately show ?thesis by (rule Suc.IH)
      qed
    qed
  qed
qed

lemma get_all_comments_within_cap:
  assumes "0 \<le> maxc" and "get_all_comments fuel maxc api lib a s = Some (Inr rows, s')"
  shows "int (length rows) \<le> maxc"
proof -
  have "int (length (snd (0::int, []::mix_row list))) \<le> max 0 maxc" by simp
  from get_all_comments_loop_bound [OF this] assms show ?thesis
    by (simp add: get_all_comments_def)
qed

text \<open>
  Claim C2. \<^verbatim>\<open>DouyinAPICrawler.fetch_video_comments\<close> tests the cap only after the
  replies of a root have been appended. With \<open>max_comments = 1\<close> and one root that has
  one reply it returns two rows.
\<close>

theorem fetch_video_comments_exceeds_cap:
  "fetch_video_comments 5 \<lparr>max_comments = 1, fetch_replies = True\<rparr>
     (counting_api root_with_replies three_replies) plain_lib ''v'' 0 =
     Some (Inr [plain_row ''a'' 1 1, plain_row ''r1'' 0 2], 2) \<and>
   \<not> int (length [plain_row ''a'' 1 1, plain_row ''r1'' 0 2]) \<le> 1"
  by (simp add: eval_api root_with_replies_def three_replies_def)

section \<open>The cursor guard\<close>

lemma reply_cursor_repeat:
  assumes "api_fetch_video_comments_reply api a parent c s = (Returns (Some resp), s1)"
    and "cursor resp = c"
    and "int (length (fst st)) < m"
  shows "\<exists>r. reply_iteration api lib a parent m (c, st) s = (Break r, s1) \<and>
             fetch_comment_replies_loop (Suc n) api lib a parent m (c, st) s = Some (r, s1)"
  using assms
  by (auto simp: reply_iteration_def split: prod.splits option.splits)

lemma root_cursor_repeat:
  assumes "api_fetch_video_comments api a c s = (Returns (Some resp), s1)"
    and "cursor resp = c"
    and "int (length (fst st)) < max_comments cfg"
    and "comments_for n cfg api lib a (page_comments resp) st s1 = Some ((st', out), s2)"
  shows "\<exists>r. comments_iteration n cfg api lib a (c, st) s = Some (Break r, s2) \<and>
             fetch_video_comments_loop (Suc n) cfg api lib a (c, st) s = Some (r, s2)"
  using assms
  by (cases "page_comments resp") (auto simp: comments_iteration_def split: prod.splits option.splits)


text \<open>
  Claim C3, for \<^verbatim>\<open>DouyinAPICrawler\<close>. When a call returns the cursor it was sent
  (the cursor the previous call returned), the iteration that made the call leaves the
  loop, whatever \<open>has_more\<close> says: the loop returns with the state of the world right
  after that call (reply sub-fetch), or right after the page of that call has been
  processed (root loop), so no further page is requested. One unit of fuel beyond what
  the page's own replies need is enough.
\<close>

theorem repeated_cursor_ends_pagination:
  "(api_fetch_video_comments_reply api a parent c s = (Returns (Some resp), s1) \<and>
    cursor resp = c \<and> int (length (fst st)) < m \<longrightarrow>
    (\<exists>r. reply_iteration api lib a parent m (c, st) s = (Break r, s1) \<and>
         fetch_comment_replies_loop (Suc n) api lib a parent m (c, st) s = Some (r, s1))) \<and>
   (api_fetch_video_comments api a c' t = (Returns (Some resp'), t1) \<and>
    cursor resp' = c' \<and> int (length (fst st')) < max_comments cfg \<and>
    comments_for n cfg api lib a (page_comments resp') st' t1 = Some ((st'', out), t2) \<longrightarrow>
    (\<exists>r. comments_iteration n cfg api lib a (c', st') t = Some (Break r, t2) \<and>
         fetch_video_comments_loop (Suc n) cfg api lib a (c', st') t = Some (r, t2)))"
proof (intro conjI impI)
  assume "api_fetch_video_comments_reply api a parent c s = (Returns (Some resp), s1) \<and>
    cursor resp = c \<and> int (length (fst st)) < m"
  then show "\<exists>r. reply_iteration api lib a parent m (c, st) s = (Break r, s1) \<and>
         fetch_comment_replies_loop (Suc n) api lib a parent m (c, st) s = Some (r, s1)"
    using reply_cursor_repeat [of api a parent c s resp s1 st m lib n] by blast
next
  assume "api_fetch_video_comments api a c' t = (Returns (Some resp'), t1) \<and>
    cursor resp' = c' \<and> int (length (fst st')) < max_comments cfg \<and>
    comments_for n cfg api lib a (page_comments resp') st' t1 = Some ((st'', out), t2)"
  then show "\<exists>r. comments_iteration n cfg api lib a (c', st') t = Some (Break r, t2) \<and>
         fetch_video_comments_loop (Suc n) cfg api lib a (c', st') t = Some (r, t2)"
    using root_cursor_repeat [of api a c' t resp' t1 st' cfg n lib st'' out t2] by blast
qed

theorem repeated_cursor_ends_pagination_witness:
  "(api_fetch_video_comments_reply (counting_api stuck_roots stuck_replies) ''v'' ''a'' 7 1 =
      (Returns (Some \<lparr>page_comments = [raw ''r2'' 0], has_more = 1, cursor = 7\<rparr>), 2) \<and>
    cursor \<lparr>page_comments = [raw ''r2'' 0], has_more = 1, cursor = 7\<rparr> = 7 \<and>
    int (length (fst ([plain_row ''r1'' 0 2], {PStr ''r1''}))) < 100) \<and>
   (\<exists>r. reply_iteration (counting_api stuck_roots stuck_replies) plain_lib ''v'' ''a'' 100
           (7, ([plain_row ''r1'' 0 2], {PStr ''r1''})) 1 = (Break r, 2) \<and>
        fetch_comment_replies_loop (Suc 0) (counting_api stuck_roots stuck_replies) plain_lib
           ''v'' ''a'' 100 (7, ([plain_row ''r1'' 0 2], {PStr ''r1''})) 1 = Some (r, 2)) \<and>
   (api_fetch_video_comments (counting_api stuck_roots stuck_replies) ''v'' 7 1 =
      (Returns (Some \<lparr>page_comments = [raw ''b'' 0], has_more = 1, cursor = 7\<rparr>), 2) \<and>
    cursor \<lparr>page_comments = [raw ''b'' 0], has_more = 1, cursor = 7\<rparr> = 7 \<and>
    int (length (fst ([plain_row ''a'' 0 1], {PStr ''a''}))) <
      max_comments \<lparr>max_comments = 10, fetch_replies = True\<rparr> \<and>
    comments_for 0 \<lparr>max_comments = 10, fetch_replies = True\<rparr>
      (counting_api stuck_roots stuck_replies) plain_lib ''v''
      (page_comments \<lparr>page_comments = [raw ''b'' 0], has_more = 1, cursor = 7\<rparr>)
      ([plain_row ''a'' 0 1], {PStr ''a''}) 2 =
      Some ((([plain_row ''a'' 0 1, plain_row ''b'' 0 1], {PStr ''b'', PStr ''a''}), None), 2)) \<and>
   (\<exists>r. comments_iteration 0 \<lparr>max_comments = 10, fetch_replies = True\<rparr>
           (counting_api stuck_roots stuck_replies) plain_lib ''v''
           (7, ([plain_row ''a'' 0 1], {PStr ''a''})) 1 = Some (Break r, 2) \<and>
        fetch_video_comments_loop (Suc 0) \<lparr>max_comments = 10, fetch_replies = True\<rparr>
           (counting_api stuck_roots stuck_replies) plain_lib ''v''
           (7, ([plain_row ''a'' 0 1], {PStr ''a''})) 1 = Some (r, 2))"
proof -
  let ?api = "counting_api stuck_roots stuck_replies"
  let ?cfg = "\<lparr>max_comments = 10, fetch_replies = True\<rparr>"
  let ?p = "\<lparr>page_comments = [raw ''r2'' 0], has_more = 1, cursor = 7\<rparr>"
  let ?q = "\<lparr>page_comments = [raw ''b'' 0], has_more = 1, cursor = 7\<rparr>"
  have h1: "api_fetch_video_comments_reply ?api ''v'' ''a'' 7 1 = (Returns (Some ?p), 2) \<and>
            cursor ?p = 7 \<and> int (length (fst ([plain_row ''r1'' 0 2], {PStr ''r1''}))) < 100"
    by (simp add: counting_api_def stuck_replies_def)
  have h2: "api_fetch_video_comments ?api ''v'' 7 1 = (Returns (Some ?q), 2) \<and>
            cursor ?q = 7 \<and>
            int (length (fst ([plain_row ''a'' 0 1], {PStr ''a''}))) < max_comments ?cfg \<and>
            comments_for 0 ?cfg ?api plain_lib ''v'' (page_comments ?q)
              ([plain_row ''a'' 0 1], {PStr ''a''}) 2 =
            Some ((([plain_row ''a'' 0 1, plain_row ''b'' 0 1], {PStr ''b'', PStr ''a''}), None), 2)"
    by (simp add: eval_api stuck_roots_def)
  from repeated_cursor_ends_pagination [where api = "?api" and a = "''v''" and parent = "''a''"
      and c = 7 and s = 1 and resp = "?p" and ?s1.0 = 2
      and st = "([plain_row ''r1'' 0 2], {PStr ''r1''})" and m = 100 and lib = plain_lib
      and n = 0 and c' = 7 and t = 1 and resp' = "?q" and ?t1.0 = 2
      and st' = "([plain_row ''a'' 0 1], {PStr ''a''})" and cfg = "?cfg"
      and st'' = "([plain_row ''a'' 0 1, plain_row ''b'' 0 1], {PStr ''b'', PStr ''a''})"
      and out = None and ?t2.0 = 2] h1 h2
  show ?thesis by blast
qed

text \<open>
  \<^verbatim>\<open>MixCrawler.get_all_comments\<close> never compares cursors. On the stuck feed the
  first two calls already return the same cursor with \<open>has_more = 1\<close>; the loop goes on
  to a fifth call, until the cap of five rows stops it.
\<close>

theorem get_all_comments_no_cursor_guard:
  "get_all_comments 9 5 (counting_api stuck_roots no_replies) plain_lib ''v'' 0 =
     Some (Inr [plain_mix_row ''a'' 1 [], plain_mix_row ''b'' 1 [], plain_mix_row ''b'' 1 [],
                plain_mix_row ''b'' 1 [], plain_mix_row ''b'' 1 []], 5) \<and>
   \<not> (5::nat) \<le> 2 + 1"
  by (simp add: eval_mix stuck_roots_def)

section \<open>Failures of the feed\<close>




lemma failure_is_empty_page:
  assumes "(api_fetch_video_comments api a c s = (Raises e, s1) \<and> is_Exception e) \<or>
           api_fetch_video_comments api a c s = (Returns None, s1)"
    and "int (length (fst st)) < max_comments cfg"
  shows "fetch_video_comments_loop (Suc n) cfg api lib a (c, st) s = Some (Inr st, s1)"
  using assms by (auto simp: comments_iteration_def)

text \<open>A harvest whose first call fails returns the empty list.\<close>

lemma first_call_fails:
  assumes "(api_fetch_video_comments api a 0 s = (Raises e, s1) \<and> is_Exception e) \<or>
           api_fetch_video_comments api a 0 s = (Returns None, s1)"
    and "0 < max_comments cfg"
  shows "fetch_video_comments (Suc n) cfg api lib a s = Some (Inr [], s1)"
proof -
  from assms(2) have "int (length (fst (([], {}) :: session))) < max_comments cfg" by simp
  from failure_is_empty_page [OF assms(1) this, of n lib]
  show ?thesis by (simp add: fetch_video_comments_def)
qed







text \<open>
  What is not an \<open>Exception\<close> is not a failure of a video: an interrupt by the user
  ends the run, which then returns; anything else leaves \<open>crawl_mix\<close>.
\<close>

lemma crawl_mix_loop_interrupted:
  "process_video v w = (Some KeyboardInterrupt, w') \<Longrightarrow>
   crawl_mix_loop process_video (v # rest) (processed, failed) w = Inr ((processed, failed), w')"
  by simp

lemma crawl_mix_loop_cancelled:
  "process_video v w = (Some e, w') \<Longrightarrow> \<not> is_Exception e \<Longrightarrow> e \<noteq> KeyboardInterrupt \<Longrightarrow>
   crawl_mix_loop process_video (v # rest) (processed, failed) w = Inl e"
  by simp



section \<open>Parent linkage\<close>

lemma format_comment_row_returns:
  "returns (\<lambda>row. tier row = lvl \<and> parent_id row = parent \<and>
                  py_get comment ''cid'' (PStr []) = Inr (row_id row))
     (format_comment_row lib comment lvl parent)"
  unfolding format_comment_row_def Let_def
  by (intro returns_andthen returns_Inr) simp

lemma format_comment_row_Inr:
  assumes "format_comment_row lib (as_dict c) lvl parent = Inr row"
  shows "tier row = lvl \<and> parent_id row = parent \<and> row_id row = PStr (cid c)"
  using format_comment_row_returns [of lvl parent "as_dict c" lib] assms
  by (simp add: returns_def as_dict_def)

lemma parents_before_snoc:
  assumes "parents_before rows" and "tier r = 1"
  shows "parents_before (rows @ [r])"
  using assms unfolding parents_before_def
  by (auto simp: nth_append less_Suc_eq)

lemma parents_before_append:
  assumes "parents_before rows"
    and "\<forall>r\<in>set rs. tier r = 2 \<longrightarrow> (\<exists>p\<in>set rows. tier p = 1 \<and> row_id p = PStr (parent_id r))"
  shows "parents_before (rows @ rs)"
  unfolding parents_before_def
proof (intro allI impI)
  fix j
  assume j: "j < length (rows @ rs)" and t: "tier ((rows @ rs) ! j) = 2"
  show "\<exists>p\<in>set (take j (rows @ rs)). tier p = 1 \<and> row_id p = PStr (parent_id ((rows @ rs) ! j))"
  proof (cases "j < length rows")
    case True
    with assms(1) t show ?thesis
      by (auto simp: parents_before_def nth_append)
  next
    case False
    with j have "(rows @ rs) ! j \<in> set rs" by (simp add: nth_append)
    with assms(2) t obtain p where "p \<in> set rows" "tier p = 1"
      "row_id p = PStr (parent_id ((rows @ rs) ! j))" by blast
    moreover from False have "set rows \<subseteq> set (take j (rows @ rs))" by auto
    ultimately show ?thesis by blast
  qed
qed

lemma replies_of_snoc: "replies_of parent rs \<Longrightarrow> tier r = 2 \<Longrightarrow> parent_id r = parent \<Longrightarrow> replies_of parent (rs @ [r])"
  by (auto simp: replies_of_def)

lemma mix_replies_for_replies_of:
  assumes "replies_of parent rs" and "mix_replies_for lib parent m items rs = (rs', out)"
  shows "replies_of parent rs'"
  using assms
proof (induction items arbitrary: rs)
  case Nil
  then show ?case by simp
next
  case (Cons it items)
  show ?case
  proof (cases it)
    case Malformed
    with Cons.prems show ?thesis by simp
  next
    case (Comment c)
    show ?thesis
    proof (cases "format_comment_row lib (as_dict c) 2 parent")
      case (Inl e)
      with Cons.prems Comment show ?thesis by simp
    next
      case (Inr row)
      from format_comment_row_Inr [OF Inr] Cons.prems(1)
      have "replies_of parent (rs @ [row])" by (simp add: replies_of_snoc)
      with Cons.prems(2) Comment Inr Cons.IH [of "rs @ [row]"] show ?thesis
        by (auto split: if_splits)
    qed
  qed
qed

lemma mix_reply_iteration_Break_replies_of:
  assumes "replies_of parent (snd cst)"
    and "mix_reply_iteration api lib a parent m cst s = (Break (Inr rs'), s')"
  shows "replies_of parent rs'"
  using assms unfolding mix_reply_iteration_def
  by (auto split: prod.splits response.splits option.splits if_splits
           dest: mix_replies_for_replies_of)

lemma mix_reply_iteration_Continue_replies_of:
  assumes "replies_of parent (snd cst)"
    and "mix_reply_iteration api lib a parent m cst s = (Continue cst', s')"
  shows "replies_of parent (snd cst')"
  using assms unfolding mix_reply_iteration_def
  by (auto split: prod.splits response.splits option.splits if_splits
           dest: mix_replies_for_replies_of)

lemma get_comment_replies_loop_replies_of:
  assumes "replies_of parent (snd cst)"
    and "get_comment_replies_loop fuel api lib a parent m cst s = Some (Inr rs', s')"
  shows "replies_of parent rs'"
  using assms
proof (induction fuel arbitrary: cst s)
  case 0
  then show ?case by simp
next
  case (Suc n)
  show ?case
  proof (cases "int (length (snd cst)) < m")
    case False
    with Suc.prems show ?thesis by auto
  next
    case True
    obtain ctl s1 where it: "mix_reply_iteration api lib a parent m cst s = (ctl, s1)"
      by (cases "mix_reply_iteration api lib a parent m cst s")
    show ?thesis
    proof (cases ctl)
      case (Break r)
      with Suc.prems(2) True it
      have "mix_reply_iteration api lib a parent m cst s = (Break (Inr rs'), s')" by auto
      with Suc.prems(1) show ?thesis by (rule mix_reply_iteration_Break_replies_of)
    next
      case (Continue cst')
      with it have "mix_reply_iteration api lib a parent m cst s = (Continue cst', s1)" by simp
      with Suc.prems(1) have "replies_of parent (snd cst')"
        by (rule mix_reply_iteration_Continue_replies_of)
      moreover from Suc.prems(2) True it Continue
      have "get_comment_replies_loop n api lib a parent m cst' s1 = Some (Inr rs', s')" by simp
      ultimately show ?thesis by (rule Suc.IH)
    qed
  qed
qed

lemma get_comment_replies_replies_of:
  assumes "get_comment_replies fuel api lib a parent m s = Some (Inr rows, s')"
  shows "replies_of parent rows"
proof -
  have "replies_of parent (snd (0::int, []::mix_row list))" by (simp add: replies_of_def)
  from get_comment_replies_loop_replies_of [OF this] assms show ?thesis
    by (simp add: get_comment_replies_def)
qed

lemma mix_comments_for_parents_before:
  assumes "parents_before collected"
    and "mix_comments_for fuel maxc api lib a items collected s = Some ((collected', out), s')"
  shows "parents_before collected'"
  using assms
proof (induction items arbitrary: collected s)
  case Nil
  then show ?case by simp
next
  case (Cons it items)
  show ?case
  proof (cases it)
    case Malformed
    with Cons.prems show ?thesis by simp
  next
    case (Comment c)
    show ?thesis
    proof (cases "format_comment_row lib (as_dict c) 1 []")
      case (Inl e)
      with Cons.prems Comment show ?thesis by simp
    next
      case (Inr row)
      note row = format_comment_row_Inr [OF Inr]
      from Cons.prems(1) row have pb1: "parents_before (collected @ [row])"
        by (simp add: parents_before_snoc)
      show ?thesis
      proof (cases "reply_comment_total c > 0 \<and> int (length (collected @ [row])) < maxc")
        case False
        with Cons.prems(2) Comment Inr pb1 show ?thesis
          using Cons.IH [of "collected @ [row]" s]
          by (auto split: if_splits)
      next
        case True
        show ?thesis
        proof (cases "get_comment_replies fuel api lib a (cid c) (maxc - int (length (collected @ [row]))) s")
          case None
          with Cons.prems Comment Inr True show ?thesis by simp
        next
          case (Some res)
          obtain r s1 where res: "res = (r, s1)" by (cases res)
          show ?thesis
          proof (cases r)
            case (Inl e)
            with Cons.prems(2) Comment \<open>format_comment_row lib (as_dict c) 1 [] = Inr row\<close>
              True Some res pb1
            show ?thesis by auto
          next
            case (Inr replies)
            with Some res
            have "get_comment_replies fuel api lib a (cid c)
                    (maxc - int (length (collected @ [row]))) s = Some (Inr replies, s1)" by simp
            then have "replies_of (cid c) replies" by (rule get_comment_replies_replies_of)
            with row have "\<forall>r\<in>set replies. tier r = 2 \<longrightarrow>
                (\<exists>p\<in>set (collected @ [row]). tier p = 1 \<and> row_id p = PStr (parent_id r))"
              by (auto simp: replies_of_def)
            with pb1 have "parents_before ((collected @ [row]) @ replies)"
              by (rule parents_before_append)
            then have pb2: "parents_before (collected @ [row] @ replies)" by simp
            from Cons.prems(2) Comment \<open>format_comment_row lib (as_dict c) 1 [] = Inr row\<close>
              True Some res Inr pb2
            show ?thesis
              using Cons.IH [of "collected @ [row] @ replies" s1]
              by (auto split: if_splits)
          qed
        qed
      qed
    qed
  qed
qed

lemma mix_comments_iteration_Break_parents_before:
  assumes "parents_before (snd cst)"
    and "mix_comments_iteration fuel maxc api lib a cst s = Some (Break (Inr rows), s')"
  shows "parents_before rows"
  using assms unfolding mix_comments_iteration_def
  by (auto split: prod.splits response.splits option.splits if_splits
           dest: mix_comments_for_parents_before)

lemma mix_comments_iteration_Continue_parents_before:
  assumes "parents_before (snd cst)"
    and "mix_comments_iteration fuel maxc api lib a cst s = Some (Continue cst', s')"
  shows "parents_before (snd cst')"
  using assms unfolding mix_comments_iteration_def
  by (auto split: prod.splits response.splits option.splits if_splits
           dest: mix_comments_for_parents_before)

lemma get_all_comments_loop_parents_before:
  assumes "parents_before (snd cst)"
    and "get_all_comments_loop fuel maxc api lib a cst s = Some (Inr rows, s')"
  shows "parents_before rows"
  using assms
proof (induction fuel arbitrary: cst s)
  case 0
  then show ?case by simp
next
  case (Suc n)
  show ?case
  proof (cases "int (length (snd cst)) < maxc")
    case False
    with Suc.prems show ?thesis by auto
  next
    case True
    show ?thesis
    proof (cases "mix_comments_iteration n maxc api lib a cst s")
      case None
      with Suc.prems True show ?thesis by simp
    next
      case (Some res)
      obtain ctl s1 where res: "res = (ctl, s1)" by (cases res)
      show ?thesis
      proof (cases ctl)
        case (Break r)
        with Suc.prems(2) True Some res
        have "mix_comments_iteration n maxc api lib a cst s = Some (Break (Inr rows), s')" by auto
        with Suc.prems(1) show ?thesis by (rule mix_comments_iteration_Break_parents_before)
      next
        case (Continue cst')
        with Some res
        have "mix_comments_iteration n maxc api lib a cst s = Some (Continue cst', s1)" by simp
        with Suc.prems(1) have "parents_before (snd cst')"
          by (rule mix_comments_iteration_Continue_parents_before)
        moreover from Suc.prems(2) True Some res Continue
        have "get_all_comments_loop n maxc api lib a cst' s1 = Some (Inr rows, s')" by simp
        ultimately show ?thesis by (rule Suc.IH)
      qed
    qed
  qed
qed

lemma get_all_comments_parents_before:
  assumes "get_all_comments fuel maxc api lib a s = Some (Inr rows, s')"
  shows "parents_before rows"
proof -
  have "parents_before (snd (0::int, []::mix_row list))" by (simp add: parents_before_def)
  from get_all_comments_loop_parents_before [OF this] assms show ?thesis
    by (simp add: get_all_comments_def)
qed


lemma pw_parents_before_snoc:
  assumes "pw_parents_before rows"
    and "pw_level r = 2 \<longrightarrow> current_parent rows (parent_cid r)"
  shows "pw_parents_before (rows @ [r])"
  using assms unfolding pw_parents_before_def current_parent_def
  by (auto simp: nth_append less_Suc_eq)

lemma convert_comments_parents_before:
  assumes "pw_parents_before pre" and "current_parent pre (fst parent)"
  shows "pw_parents_before (pre @ convert_comments cid_of idx parent xs)"
  using assms
proof (induction xs arbitrary: pre parent idx)
  case Nil
  then show ?case by simp
next
  case (Cons c xs)
  let ?cid = "cid_of (userId c) (dom_content c) (timeText c) idx"
  let ?parent' = "if dom_level c = 1 then (?cid, username c) else parent"
  let ?row = "\<lparr>pw_cid = ?cid, pw_text = dom_content c, pw_user = username c,
               pw_user_id = userId c, pw_level = dom_level c,
               parent_cid = (if dom_level c = 2 then fst ?parent' else []),
               parent_user = (if dom_level c = 2 then snd ?parent' else [])\<rparr>"
  have a: "pw_parents_before (pre @ [?row])"
    using Cons.prems by (intro pw_parents_before_snoc) auto
  have b: "current_parent (pre @ [?row]) (fst ?parent')"
    using Cons.prems(2) by (auto simp: current_parent_def split: if_splits)
  from Cons.IH [OF a b, of "Suc idx"] show ?case
    by (simp add: Let_def)
qed

lemma playwright_comments_parents_before:
  "pw_parents_before (playwright_comments cid_of maxc raw_comments)"
proof -
  have "pw_parents_before []" by (simp add: pw_parents_before_def)
  moreover have "current_parent [] (fst ([]::string, []::string))"
    by (simp add: current_parent_def)
  ultimately have "pw_parents_before ([] @ convert_comments cid_of 0 ([], []) (py_take maxc raw_comments))"
    by (rule convert_comments_parents_before)
  then show ?thesis by (simp add: playwright_comments_def)
qed

text \<open>
  Claim C9. In a result of \<^verbatim>\<open>MixCrawler.get_all_comments\<close> every level-2 row has
  a level-1 row before it whose id is its parent id. In the rows of the Playwright
  crawler this holds for every level-2 row that has some level-1 row before it; a
  level-2 row that comes before every level-1 row has the empty parent id.
\<close>

theorem parent_linkage:
  "(get_all_comments fuel maxc api lib a s = Some (Inr rows, s') \<longrightarrow>
      (\<forall>j<length rows. tier (rows ! j) = 2 \<longrightarrow>
         (\<exists>p\<in>set (take j rows). tier p = 1 \<and> row_id p = PStr (parent_id (rows ! j))))) \<and>
   (\<forall>j<length (playwright_comments cid_of m raw_comments).
      pw_level (playwright_comments cid_of m raw_comments ! j) = 2 \<longrightarrow>
        (if \<exists>p\<in>set (take j (playwright_comments cid_of m raw_comments)). pw_level p = 1
         then \<exists>p\<in>set (take j (playwright_comments cid_of m raw_comments)).
                pw_level p = 1 \<and>
                pw_cid p = parent_cid (playwright_comments cid_of m raw_comments ! j)
         else parent_cid (playwright_comments cid_of m raw_comments ! j) = []))"
proof (intro conjI impI)
  assume "get_all_comments fuel maxc api lib a s = Some (Inr rows, s')"
  then have "parents_before rows" by (rule get_all_comments_parents_before)
  then show "\<forall>j<length rows. tier (rows ! j) = 2 \<longrightarrow>
         (\<exists>p\<in>set (take j rows). tier p = 1 \<and> row_id p = PStr (parent_id (rows ! j)))"
    by (simp add: parents_before_def)
next
  from playwright_comments_parents_before [of cid_of m raw_comments]
  show "\<forall>j<length (playwright_comments cid_of m raw_comments).
      pw_level (playwright_comments cid_of m raw_comments ! j) = 2 \<longrightarrow>
        (if \<exists>p\<in>set (take j (playwright_comments cid_of m raw_comments)). pw_level p = 1
         then \<exists>p\<in>set (take j (playwright_comments cid_of m raw_comments)).
                pw_level p = 1 \<and>
                pw_cid p = parent_cid (playwright_comments cid_of m raw_comments ! j)
         else parent_cid (playwright_comments cid_of m raw_comments ! j) = [])"
    by (simp only: pw_parents_before_def)
qed

theorem parent_linkage_witness:
  "get_all_comments 5 10 (counting_api root_with_replies three_replies) plain_lib ''v'' 0 =
     Some (Inr [plain_mix_row ''a'' 1 [], plain_mix_row ''r1'' 2 ''a'',
                plain_mix_row ''r2'' 2 ''a'', plain_mix_row ''r3'' 2 ''a''], 2) \<and>
   (\<exists>p\<in>set (take 3 [plain_mix_row ''a'' 1 [], plain_mix_row ''r1'' 2 ''a'',
                      plain_mix_row ''r2'' 2 ''a'', plain_mix_row ''r3'' 2 ''a'']).
      tier p = 1 \<and>
      row_id p = PStr (parent_id ([plain_mix_row ''a'' 1 [], plain_mix_row ''r1'' 2 ''a'',
          plain_mix_row ''r2'' 2 ''a'', plain_mix_row ''r3'' 2 ''a''] ! 3))) \<and>
   playwright_comments sample_cid 10 root_then_reply =
     [\<lparr>pw_cid = ''1_hi'', pw_text = ''hi'', pw_user = ''u'', pw_user_id = ''1'', pw_level = 1,
       parent_cid = [], parent_user = []\<rparr>,
      \<lparr>pw_cid = ''2_yo'', pw_text = ''yo'', pw_user = ''w'', pw_user_id = ''2'', pw_level = 2,
       parent_cid = ''1_hi'', parent_user = ''u''\<rparr>] \<and>
   1 < length (playwright_comments sample_cid 10 root_then_reply) \<and>
   pw_level (playwright_comments sample_cid 10 root_then_reply ! 1) = 2 \<and>
   (\<exists>p\<in>set (take 1 (playwright_comments sample_cid 10 root_then_reply)). pw_level p = 1) \<and>
   (\<exists>p\<in>set (take 1 (playwright_comments sample_cid 10 root_then_reply)).
      pw_level p = 1 \<and>
      pw_cid p = parent_cid (playwright_comments sample_cid 10 root_then_reply ! 1))"
proof -
  let ?rows = "[plain_mix_row ''a'' 1 [], plain_mix_row ''r1'' 2 ''a'',
                plain_mix_row ''r2'' 2 ''a'', plain_mix_row ''r3'' 2 ''a'']"
  have run: "get_all_comments 5 10 (counting_api root_with_replies three_replies) plain_lib
               ''v'' 0 = Some (Inr ?rows, 2)"
    by (simp add: eval_mix root_with_replies_def three_replies_def)
  have pw: "playwright_comments sample_cid 10 root_then_reply =
     [\<lparr>pw_cid = ''1_hi'', pw_text = ''hi'', pw_user = ''u'', pw_user_id = ''1'', pw_level = 1,
       parent_cid = [], parent_user = []\<rparr>,
      \<lparr>pw_cid = ''2_yo'', pw_text = ''yo'', pw_user = ''w'', pw_user_id = ''2'', pw_level = 2,
       parent_cid = ''1_hi'', parent_user = ''u''\<rparr>]"
    by (simp add: playwright_comments_def py_take_def root_then_reply_def sample_cid_def Let_def)
  have lv: "1 < length (playwright_comments sample_cid 10 root_then_reply) \<and>
    pw_level (playwright_comments sample_cid 10 root_then_reply ! 1) = 2 \<and>
    (\<exists>p\<in>set (take 1 (playwright_comments sample_cid 10 root_then_reply)). pw_level p = 1)"
    by (simp add: pw)
  have l3: "3 < length ?rows \<and> tier (?rows ! 3) = 2" by simp
  note inst = parent_linkage [of 5 10 "counting_api root_with_replies three_replies" plain_lib
      "''v''" 0 ?rows 2 sample_cid 10 root_then_reply]
  from inst run l3 have mixpart: "\<exists>p\<in>set (take 3 ?rows).
      tier p = 1 \<and> row_id p = PStr (parent_id (?rows ! 3))"
    by blast
  from inst lv have pwpart: "\<exists>p\<in>set (take 1 (playwright_comments sample_cid 10 root_then_reply)).
       pw_level p = 1 \<and> pw_cid p = parent_cid (playwright_comments sample_cid 10 root_then_reply ! 1)"
    by (metis (no_types, lifting))
  from run mixpart pw lv pwpart show ?thesis by blast
qed


text \<open>
  The Playwright crawler starts with \<^verbatim>\<open>parent_cid = ''\<close>: a scraped reply that
  comes first becomes a level-2 row with an empty parent id, and the result holds no
  level-1 row at all.
\<close>

theorem playwright_orphan_reply:
  "playwright_comments sample_cid 10 [orphan_reply] =
     [\<lparr>pw_cid = ''1_hi'', pw_text = ''hi'', pw_user = ''u'', pw_user_id = ''1'', pw_level = 2,
       parent_cid = [], parent_user = []\<rparr>]"
  by (simp add: playwright_comments_def py_take_def orphan_reply_def sample_cid_def Let_def)


section \<open>Coverage\<close>

text \<open>
  Claim C5. The ratio is \<open>actual / expected\<close> when the expected count is positive
  (the code holds it as a percentage). When the expected count is 0 the expression
  gives 0, not 1, and \<^verbatim>\<open>process_video\<close> does not evaluate the coverage at all.
\<close>

theorem coverage_value:
  "(0 < total_expected \<longrightarrow>
      coverage actual_count total_expected / 100 =
        real_of_int actual_count / real_of_int total_expected) \<and>
   (total_expected \<le> 0 \<longrightarrow>
      coverage actual_count total_expected = 0 \<and>
      process_video_coverage crawl_comments total_expected actual_count = None)"
  by (simp add: coverage_def process_video_coverage_def)

theorem coverage_value_witness:
  "(0::int) < 4 \<and> coverage 3 4 / 100 = real_of_int 3 / real_of_int 4 \<and>
   (0::int) \<le> 0 \<and> coverage 0 0 = 0 \<and> process_video_coverage True 0 0 = None"
  using coverage_value [of 4 3 True] coverage_value [of 0 0 True] by simp

text \<open>With nothing expected and nothing retrieved the coverage is 0, not 100 per cent.\<close>

theorem coverage_zero_expected:
  "coverage 0 0 = 0 \<and> coverage 0 0 / 100 \<noteq> 1 \<and> process_video_coverage True 0 0 = None"
  by (simp add: coverage_def process_video_coverage_def)

section \<open>The choice of the strategy (DrissionMixCrawler)\<close>

lemma map_of_py_setitem: "map_of (py_setitem k v d) k = Some v"
  by (simp add: py_setitem_def)

lemma all_level1_snoc:
  "all_level1 rows \<Longrightarrow> all_level1 (rows @ [py_setitem ''level'' (PInt 1) d])"
  unfolding all_level1_def using map_of_py_setitem [of "''level''" "PInt 1" d] by auto

lemma api_page_for_level:
  assumes "all_level1 (fst st)"
    and "api_page_for parse items st = (st', out)"
  shows "all_level1 (fst st')"
  using assms
proof (induction items arbitrary: st)
  case Nil
  then show ?case by simp
next
  case (Cons it items)
  obtain cs ids where st: "st = (cs, ids)" by (cases st)
  show ?case
  proof (cases it)
    case Malformed
    with Cons.prems show ?thesis by simp
  next
    case (Comment c)
    show ?thesis
    proof (cases "cid c \<noteq> [] \<and> PStr (cid c) \<notin> ids")
      case True
      let ?st1 = "(cs @ [py_setitem ''level'' (PInt 1) (parse (as_dict c))], insert (PStr (cid c)) ids)"
      from Cons.prems(1) st have "all_level1 (fst ?st1)" by (simp add: all_level1_snoc)
      moreover from Cons.prems(2) Comment st True
      have "api_page_for parse items ?st1 = (st', out)" by simp
      ultimately show ?thesis by (rule Cons.IH)
    next
      case False
      with Cons.prems(2) Comment st
      have "api_page_for parse items st = (st', out)" by auto
      with Cons.prems(1) show ?thesis by (rule Cons.IH)
    qed
  qed
qed

lemma api_pages_iteration_Break_level:
  assumes "all_level1 (fst (snd cst))"
    and "api_pages_iteration api parse a cst w = (Break (Inr st'), w')"
  shows "all_level1 (fst st')"
  using assms unfolding api_pages_iteration_def
  by (auto split: prod.splits response.splits option.splits if_splits
           dest!: api_page_for_level [rotated])

lemma api_pages_iteration_Continue_level:
  assumes "all_level1 (fst (snd cst))"
    and "api_pages_iteration api parse a cst w = (Continue cst', w')"
  shows "all_level1 (fst (snd cst'))"
  using assms unfolding api_pages_iteration_def
  by (auto split: prod.splits response.splits option.splits if_splits
           dest!: api_page_for_level [rotated])

lemma fetch_comments_pages_level:
  assumes "all_level1 (fst (snd cst))"
    and "fetch_comments_pages k maxc api parse a cst w = (Inr st', w')"
  shows "all_level1 (fst st')"
  using assms
proof (induction k arbitrary: cst w)
  case 0
  then show ?case by simp
next
  case (Suc k)
  show ?case
  proof (cases "int (length (fst (snd cst))) < maxc")
    case False
    with Suc.prems show ?thesis by auto
  next
    case True
    obtain ctl w1 where it: "api_pages_iteration api parse a cst w = (ctl, w1)"
      by (cases "api_pages_iteration api parse a cst w")
    show ?thesis
    proof (cases ctl)
      case (Break r)
      with Suc.prems(2) True it
      have "api_pages_iteration api parse a cst w = (Break (Inr st'), w')" by auto
      with Suc.prems(1) show ?thesis by (rule api_pages_iteration_Break_level)
    next
      case (Continue cst')
      with it have "api_pages_iteration api parse a cst w = (Continue cst', w1)" by simp
      with Suc.prems(1) have "all_level1 (fst (snd cst'))"
        by (rule api_pages_iteration_Continue_level)
      moreover from Suc.prems(2) True it Continue
      have "fetch_comments_pages k maxc api parse a cst' w1 = (Inr st', w')" by simp
      ultimately show ?thesis by (rule Suc.IH)
    qed
  qed
qed

lemma get_video_comments_api_level:
  assumes "get_video_comments_api maxc api parse a expected w = (Inr rows, w')"
  shows "\<forall>r\<in>set rows. map_of r ''level'' = Some (PInt 1)"
proof -
  from assms obtain st where
    run: "fetch_comments_pages 200 maxc api parse a (0, ([], {})) w = (Inr st, w')"
    and rows: "rows = fst st"
    by (auto simp: get_video_comments_api_def split: prod.splits sum.splits)
  have "all_level1 (fst (snd (0::int, ([]::pydict list, {}::pyval set))))"
    by (simp add: all_level1_def)
  from fetch_comments_pages_level [OF this run] rows show ?thesis by (simp add: all_level1_def)
qed


text \<open>
  Claim C7. \<^verbatim>\<open>process_video\<close> takes the API strategy, which returns rows of
  level 1 only, exactly when the expected count is above 1500, and the browser strategy
  for the other positive counts. The strategy is run once and its result is the result,
  also when it is empty: the other strategy is not tried.
\<close>

theorem strategy_selection:
  "LARGE_COMMENT_THRESHOLD = 1500 \<and>
   (crawl_comments \<and> total_expected > LARGE_COMMENT_THRESHOLD \<longrightarrow>
      process_video_comments maxc api parse browser crawl_comments a total_expected w =
        (case get_video_comments_api maxc api parse a total_expected w of
           (Inl e, w') \<Rightarrow> (Inl e, w')
         | (Inr comments, w') \<Rightarrow> (Inr (comments, False), w'))) \<and>
   (crawl_comments \<and> 0 < total_expected \<and> total_expected \<le> LARGE_COMMENT_THRESHOLD \<longrightarrow>
      process_video_comments maxc api parse browser crawl_comments a total_expected w =
        (case browser a total_expected w of
           (Inl e, w') \<Rightarrow> (Inl e, w')
         | (Inr None, w') \<Rightarrow> (Inr ([], True), w')
         | (Inr (Some comments), w') \<Rightarrow> (Inr (comments, False), w'))) \<and>
   (get_video_comments_api maxc api parse a total_expected w = (Inr rows, w1) \<longrightarrow>
      (\<forall>r\<in>set rows. map_of r ''level'' = Some (PInt 1)))"
proof (intro conjI impI)
  show "LARGE_COMMENT_THRESHOLD = 1500" by (simp add: LARGE_COMMENT_THRESHOLD_def)
next
  assume "crawl_comments \<and> total_expected > LARGE_COMMENT_THRESHOLD"
  then show "process_video_comments maxc api parse browser crawl_comments a total_expected w =
        (case get_video_comments_api maxc api parse a total_expected w of
           (Inl e, w') \<Rightarrow> (Inl e, w')
         | (Inr comments, w') \<Rightarrow> (Inr (comments, False), w'))"
    by (simp add: process_video_comments_def LARGE_COMMENT_THRESHOLD_def)
next
  assume "crawl_comments \<and> 0 < total_expected \<and> total_expected \<le> LARGE_COMMENT_THRESHOLD"
  then show "process_video_comments maxc api parse browser crawl_comments a total_expected w =
        (case browser a total_expected w of
           (Inl e, w') \<Rightarrow> (Inl e, w')
         | (Inr None, w') \<Rightarrow> (Inr ([], True), w')
         | (Inr (Some comments), w') \<Rightarrow> (Inr (comments, False), w'))"
    by (simp add: process_video_comments_def LARGE_COMMENT_THRESHOLD_def)
next
  assume "get_video_comments_api maxc api parse a total_expected w = (Inr rows, w1)"
  then show "\<forall>r\<in>set rows. map_of r ''level'' = Some (PInt 1)"
    by (rule get_video_comments_api_level)
qed

lemmas eval_drission =
  process_video_comments_def get_video_comments_api_def api_pages_iteration_def
  LARGE_COMMENT_THRESHOLD_def empty_api_def one_page_api_def browser_finds_def parse_cid_def
  py_setitem_def as_dict_def raw_def numeral_eq_Suc

theorem strategy_selection_witness:
  "(True \<and> (1501::int) > LARGE_COMMENT_THRESHOLD) \<and>
   process_video_comments 2000 one_page_api parse_cid (browser_finds []) True ''v'' 1501 (0, 0) =
     (Inr ([[(''level'', PInt 1), (''cid'', PStr ''a'')]], False), (1, 0)) \<and>
   (True \<and> (0::int) < 100 \<and> 100 \<le> LARGE_COMMENT_THRESHOLD) \<and>
   process_video_comments 2000 one_page_api parse_cid
     (browser_finds [[(''cid'', PStr ''b'')]]) True ''v'' 100 (0, 0) =
     (Inr ([[(''cid'', PStr ''b'')]], False), (0, 1)) \<and>
   get_video_comments_api 2000 one_page_api parse_cid ''v'' 1501 (0, 0) =
     (Inr [[(''level'', PInt 1), (''cid'', PStr ''a'')]], (1, 0)) \<and>
   map_of [(''level'', PInt 1), (''cid'', PStr ''a'')] ''level'' = Some (PInt 1)"
proof -
  have run: "get_video_comments_api 2000 one_page_api parse_cid ''v'' 1501 (0, 0) =
     (Inr [[(''level'', PInt 1), (''cid'', PStr ''a'')]], (1, 0))"
    by (simp add: eval_drission)
  have br: "browser_finds [[(''cid'', PStr ''b'')]] ''v'' 100 (0, 0) =
     (Inr (Some [[(''cid'', PStr ''b'')]]), (0, 1))"
    by (simp add: browser_finds_def)
  have h1: "True \<and> (1501::int) > LARGE_COMMENT_THRESHOLD"
    and h2: "True \<and> (0::int) < 100 \<and> 100 \<le> LARGE_COMMENT_THRESHOLD"
    by (simp_all add: LARGE_COMMENT_THRESHOLD_def)
  note a = strategy_selection [of True 1501 2000 one_page_api parse_cid "browser_finds []"
      "''v''" "(0, 0)" "[[(''level'', PInt 1), (''cid'', PStr ''a'')]]" "(1, 0)"]
  note b = strategy_selection [of True 100 2000 one_page_api parse_cid
      "browser_finds [[(''cid'', PStr ''b'')]]" "''v''" "(0, 0)"]
  from a h1 run
  have p1: "process_video_comments 2000 one_page_api parse_cid (browser_finds []) True ''v''
              1501 (0, 0) = (Inr ([[(''level'', PInt 1), (''cid'', PStr ''a'')]], False), (1, 0))"
    and p3: "map_of [(''level'', PInt 1), (''cid'', PStr ''a'')] ''level'' = Some (PInt 1)"
    by simp_all
  from b h2 br
  have p2: "process_video_comments 2000 one_page_api parse_cid
     (browser_finds [[(''cid'', PStr ''b'')]]) True ''v'' 100 (0, 0) =
     (Inr ([[(''cid'', PStr ''b'')]], False), (0, 1))"
    by simp
  from h1 p1 h2 p2 run p3 show ?thesis by blast
qed

text \<open>
  No fallback. With 2000 expected comments the API strategy gets an empty first page
  and the result is empty; the browser strategy, which would find a comment, is not
  run (the second counter stays 0). With 100 expected comments the browser strategy
  finds nothing and the API, which has a page, is not called.
\<close>

theorem no_fallback_between_strategies:
  "process_video_comments 2000 empty_api parse_cid
     (browser_finds [[(''cid'', PStr ''b'')]]) True ''v'' 2000 (0, 0) =
     (Inr ([], False), (1, 0)) \<and>
   process_video_comments 2000 one_page_api parse_cid (browser_finds []) True ''v'' 100 (0, 0) =
     (Inr ([], False), (0, 1))"
  by (simp add: eval_drission)


section \<open>The verification pass (DrissionMixCrawler)\<close>










text \<open>
  A round that the captcha handling cuts short (\<^verbatim>\<open>continue\<close>) makes no
  verification pass, whatever the coverage.
\<close>

lemma captcha_round_skips_log:
  "round_to_log br parse lib expected st w = (True, st1, w1) \<Longrightarrow>
   scroll_round_body br parse lib expected st w = (Continue st1, w1)"
  by (simp add: scroll_round_body_def)



text \<open>
  The pass knows a comment by its \<open>cid\<close> alone, the rounds of the loop by
  \<^verbatim>\<open>cid or str(id)\<close>: a comment with no \<open>cid\<close> that the pass is delivered is not
  taken, while a round takes it.
\<close>

lemma collect_for_takes_id_only:
  "collect_for parse_cid plain_lib [Comment id_only]
     (False, [[(''cid'', PStr ''a'')]], {PStr ''a''}) =
     (True, [[(''cid'', PStr ''a'')], [(''cid'', PStr [])]], {PStr ''a'', PStr ''5''})"
  by (auto simp: comment_key_def id_only_def as_dict_def parse_cid_def)







end
